theory Spec2Isabelle
  imports Main
begin

section \<open>JavaScript values and property access\<close>

text \<open>
  The handlers of the quiz server read request bodies and data files that were produced by
  \<^verbatim>\<open>JSON.parse\<close> and test them with JavaScript's truthiness and strict equality.
  \<open>jsval\<close> holds the values those tests can see: \<open>JUndefined\<close> is an absent property,
  \<open>JObject\<close> is any array or object (the handlers never look inside one), \<open>JFunction\<close> is a
  method inherited from \<^verbatim>\<open>Object.prototype\<close>. Numbers are the integer-valued ones.
  Strings are compared for equality and emptiness only, and through \<^verbatim>\<open>toLowerCase\<close>, which
  every definition below takes as the parameter \<open>lower\<close>.

  The model covers the requests whose string fields (names, tokens, question text) are
  strings or absent and whose \<^verbatim>\<open>answers\<close> field is an object or falsy, and data files
  whose records have the fields of the types given below. Every \<^verbatim>\<open>readJSON\<close> answers what
  the last \<^verbatim>\<open>writeJSON\<close> wrote: the store is the content of the files.
\<close>

datatype jsval = JUndefined | JNull | JBool bool | JNum int | JStr string | JObject | JFunction

fun truthy :: "jsval \<Rightarrow> bool" where
  "truthy JUndefined = False"
| "truthy JNull = False"
| "truthy (JBool b) = b"
| "truthy (JNum n) = (n \<noteq> 0)"
| "truthy (JStr s) = (s \<noteq> [])"
| "truthy JObject = True"
| "truthy JFunction = True"

text \<open>The methods every plain object inherits from \<^verbatim>\<open>Object.prototype\<close>.\<close>

definition object_prototype_methods :: "string list" where
  "object_prototype_methods =
     [''constructor'', ''__defineGetter__'', ''__defineSetter__'', ''hasOwnProperty'',
      ''__lookupGetter__'', ''__lookupSetter__'', ''isPrototypeOf'', ''propertyIsEnumerable'',
      ''toString'', ''valueOf'', ''toLocaleString'']"

text \<open>
  \<^verbatim>\<open>obj[key]\<close> on a plain object: an own property wins, then the prototype's accessor
  \<^verbatim>\<open>__proto__\<close> (it answers the prototype, an object) and its methods, else
  \<^verbatim>\<open>undefined\<close>.
\<close>

definition js_get :: "(string \<rightharpoonup> jsval) \<Rightarrow> string \<Rightarrow> jsval" where
  "js_get obj key =
     (case obj key of
        Some v \<Rightarrow> v
      | None \<Rightarrow>
          if key = ''__proto__'' then JObject
          else if key \<in> set object_prototype_methods then JFunction
          else JUndefined)"

text \<open>
  \<^verbatim>\<open>obj[key] = v\<close>: an assignment to \<^verbatim>\<open>__proto__\<close> runs the inherited setter and
  creates no own property, unless the object already owns one (as \<^verbatim>\<open>JSON.parse\<close> can
  make it).
\<close>

definition js_set :: "(string \<rightharpoonup> jsval) \<Rightarrow> string \<Rightarrow> jsval \<Rightarrow> (string \<rightharpoonup> jsval)" where
  "js_set obj key v = (if key = ''__proto__'' \<and> obj key = None then obj else obj(key \<mapsto> v))"

text \<open>
  What is left of an object's properties after \<^verbatim>\<open>writeJSON\<close> and the next
  \<^verbatim>\<open>readJSON\<close>: \<^verbatim>\<open>JSON.stringify\<close> leaves out the properties whose value is a function
  or \<^verbatim>\<open>undefined\<close>.
\<close>

definition json_props :: "(string \<rightharpoonup> jsval) \<Rightarrow> (string \<rightharpoonup> jsval)" where
  "json_props obj =
     (\<lambda>key. case obj key of
        Some JFunction \<Rightarrow> None
      | Some JUndefined \<Rightarrow> None
      | r \<Rightarrow> r)"

section \<open>The stored collections\<close>

datatype role = Teacher | Student

record person =
  firstName :: string
  lastName :: string

text \<open>A user is \<^verbatim>\<open>{ id, firstName, lastName, role }\<close>; \<open>uid\<close> is the field \<^verbatim>\<open>id\<close>.\<close>

record user = person +
  uid :: string
  role :: role

record session =
  startTime :: int
  endTime :: int

text \<open>
  A question of \<^verbatim>\<open>questions.json\<close>: \<open>qid\<close>, \<open>qtext\<close> and \<open>qtype\<close> are its fields
  \<^verbatim>\<open>id\<close>, \<^verbatim>\<open>text\<close> and \<^verbatim>\<open>type\<close>; \<open>None\<close> is a field the object does not have.
\<close>

record question =
  qid :: string
  qtext :: string
  qtype :: string
  choices :: "string list option"
  correctAnswer :: "string option"

text \<open>
  A submission of \<^verbatim>\<open>submissions.json\<close>. The two open-ended fields are absent (\<open>None\<close>) in
  the records that \<^verbatim>\<open>server.js\<close> writes.
\<close>

record submission =
  token :: string
  studentName :: string
  answers :: "string \<rightharpoonup> jsval"
  openEndedAnswers :: "(string \<rightharpoonup> jsval) option"
  openAnswerGrades :: "(string \<rightharpoonup> jsval) option"
  score :: int
  totalMCQs :: int
  submittedAt :: int

text \<open>The data directory: one list per JSON file.\<close>

record store =
  teachers :: "person list"
  users :: "user list"
  sessions :: "session list"
  submissions :: "submission list"
  questions :: "question list"

text \<open>
  How a handler can end other than with a 200 response. \<open>TypeError\<close> is an exception
  thrown inside the handler, which Express answers with status 500.
\<close>

datatype error =
  BadRequest
  | Forbidden
  | NotStarted
  | Ended
  | DuplicateSubmission
  | SubmissionNotFound
  | QuestionNotFound
  | TypeError

fun http_status :: "error \<Rightarrow> nat" where
  "http_status BadRequest = 400"
| "http_status Forbidden = 403"
| "http_status NotStarted = 403"
| "http_status Ended = 403"
| "http_status DuplicateSubmission = 400"
| "http_status SubmissionNotFound = 404"
| "http_status QuestionNotFound = 404"
| "http_status TypeError = 500"

section \<open>POST /signin\<close>

text \<open>
  The predicate of \<^verbatim>\<open>teachers.some\<close> and of \<^verbatim>\<open>usersData.users.find\<close>: both names
  equal after \<^verbatim>\<open>toLowerCase\<close>.
\<close>

definition same_name :: "(string \<Rightarrow> string) \<Rightarrow> string \<Rightarrow> string \<Rightarrow> 'a person_scheme \<Rightarrow> bool" where
  "same_name lower fn ln p \<longleftrightarrow> lower (firstName p) = lower fn \<and> lower (lastName p) = lower ln"

text \<open>
  \<open>fn\<close> and \<open>ln\<close> are the body's \<^verbatim>\<open>firstName\<close> and \<^verbatim>\<open>lastName\<close> (the empty string
  stands for an absent field too: \<^verbatim>\<open>!x\<close> holds of both), \<open>newId\<close> is what \<^verbatim>\<open>uuidv4()\<close>
  would return. The result is the new store and the response \<^verbatim>\<open>{ token, role }\<close>.
\<close>

definition signin ::
  "(string \<Rightarrow> string) \<Rightarrow> store \<Rightarrow> string \<Rightarrow> string \<Rightarrow> string \<Rightarrow> store \<times> (error + string \<times> role)" where
  "signin lower st fn ln newId =
     (if fn = [] \<or> ln = [] then (st, Inl BadRequest)
      else
        let isTeacher = list_ex (same_name lower fn ln) (teachers st) in
        case find (same_name lower fn ln) (users st) of
          Some u \<Rightarrow> (st, Inr (uid u, role u))
        | None \<Rightarrow>
            let u = \<lparr>firstName = fn, lastName = ln, uid = newId,
                     role = (if isTeacher then Teacher else Student)\<rparr>
            in (st\<lparr>users := users st @ [u]\<rparr>, Inr (uid u, role u)))"

section \<open>POST /session/start\<close>

text \<open>
  \<open>tok\<close> is the body's \<^verbatim>\<open>token\<close>, \<open>now\<close> is \<^verbatim>\<open>Date.now()\<close>. In the variant that
  takes the end time from the body, \<open>e\<close> is that field when it is an integer (\<open>None\<close>: absent);
  \<^verbatim>\<open>!endTime\<close> holds of 0 as well. The handler stores \<^verbatim>\<open>parseInt(endTime)\<close>, which is
  the integer itself for the integers below \<open>10^21\<close> in absolute value: the model covers those.
  Both variants read \<^verbatim>\<open>usersData.users.find\<close> without \<^verbatim>\<open>?.\<close> and throw where
  \<^verbatim>\<open>users.json\<close> has no list; the store of the model always has one.
\<close>

definition is_teacher_token :: "string \<Rightarrow> user \<Rightarrow> bool" where
  "is_teacher_token tok u \<longleftrightarrow> uid u = tok \<and> role u = Teacher"

definition is_student_token :: "string \<Rightarrow> user \<Rightarrow> bool" where
  "is_student_token tok u \<longleftrightarrow> uid u = tok \<and> role u = Student"

definition sessionStart ::
  "store \<Rightarrow> string \<Rightarrow> int option \<Rightarrow> int \<Rightarrow> store \<times> (error + session)" where
  "sessionStart st tok e now =
     (if tok = [] then (st, Inl BadRequest)
      else case e of
        None \<Rightarrow> (st, Inl BadRequest)
      | Some t \<Rightarrow>
          if t = 0 then (st, Inl BadRequest)
          else case find (is_teacher_token tok) (users st) of
            None \<Rightarrow> (st, Inl Forbidden)
          | Some teacher \<Rightarrow>
              let s = \<lparr>startTime = now, endTime = t\<rparr>
              in (st\<lparr>sessions := sessions st @ [s]\<rparr>, Inr s))"

text \<open>The variant of \<^verbatim>\<open>server.js\<close>: the session lasts one hour.\<close>

definition sessionStartHour :: "store \<Rightarrow> string \<Rightarrow> int \<Rightarrow> store \<times> (error + session)" where
  "sessionStartHour st tok now =
     (if tok = [] then (st, Inl BadRequest)
      else case find (is_teacher_token tok) (users st) of
        None \<Rightarrow> (st, Inl Forbidden)
      | Some teacher \<Rightarrow>
          let s = \<lparr>startTime = now, endTime = now + 60 * 60 * 1000\<rparr>
          in (st\<lparr>sessions := sessions st @ [s]\<rparr>, Inr s))"

section \<open>GET /questions\<close>

text \<open>
  The checks before the questions are served, on the list of \<^verbatim>\<open>sessions.json\<close>: the
  result is the time that remains.
\<close>

definition gate :: "session list \<Rightarrow> int \<Rightarrow> error + int" where
  "gate ss now =
     (if ss = [] then Inl NotStarted
      else
        let latestSession = last ss in
        if now > endTime latestSession then Inl Ended
        else if now < startTime latestSession then Inl NotStarted
        else Inr (endTime latestSession - now))"

text \<open>\<^verbatim>\<open>({ correctAnswer, ...rest }) => rest\<close>: every field but \<^verbatim>\<open>correctAnswer\<close>.\<close>

definition strip_answer :: "question \<Rightarrow> question" where
  "strip_answer q = q\<lparr>correctAnswer := None\<rparr>"

text \<open>The response is \<^verbatim>\<open>{ remainingTimeMs, questions }\<close>.\<close>

definition getQuestions :: "store \<Rightarrow> int \<Rightarrow> error + int \<times> question list" where
  "getQuestions st now =
     (case gate (sessions st) now of
        Inl e \<Rightarrow> Inl e
      | Inr remaining \<Rightarrow> Inr (remaining, map strip_answer (questions st)))"

section \<open>POST /submit\<close>

text \<open>The locals of the grading loop: \<^verbatim>\<open>score\<close>, \<^verbatim>\<open>totalMCQs\<close>, \<^verbatim>\<open>openEndedAnswers\<close>.\<close>

record grading =
  g_score :: int
  g_totalMCQs :: int
  g_openEndedAnswers :: "string \<rightharpoonup> jsval"

definition grading0 :: grading where
  "grading0 = \<lparr>g_score = 0, g_totalMCQs = 0, g_openEndedAnswers = Map.empty\<rparr>"

text \<open>
  The body of \<^verbatim>\<open>questions.forEach\<close>. \<^verbatim>\<open>answers[q.id].toLowerCase()\<close> throws when the
  truthy value is not a string, \<^verbatim>\<open>q.correctAnswer.toLowerCase()\<close> when the question has no
  \<^verbatim>\<open>correctAnswer\<close>.
\<close>

definition gradeQuestion ::
  "(string \<Rightarrow> string) \<Rightarrow> (string \<rightharpoonup> jsval) \<Rightarrow> grading \<Rightarrow> question \<Rightarrow> error + grading" where
  "gradeQuestion lower ans g q =
     (if qtype q = ''multiple-choice'' then
        (let g1 = g\<lparr>g_totalMCQs := g_totalMCQs g + 1\<rparr> in
         if truthy (js_get ans (qid q)) then
           (case js_get ans (qid q) of
              JStr a \<Rightarrow>
                (case correctAnswer q of
                   None \<Rightarrow> Inl TypeError
                 | Some c \<Rightarrow>
                     Inr (if lower a = lower c then g1\<lparr>g_score := g_score g1 + 1\<rparr> else g1))
            | _ \<Rightarrow> Inl TypeError)
         else Inr g1)
      else if qtype q = ''open-ended'' then
        Inr (g\<lparr>g_openEndedAnswers :=
               js_set (g_openEndedAnswers g) (qid q)
                 (if truthy (js_get ans (qid q)) then js_get ans (qid q) else JStr ''No answer'')\<rparr>)
      else Inr g)"

text \<open>\<^verbatim>\<open>forEach\<close>: an exception in the callback ends the loop and the handler.\<close>

fun gradeAll ::
  "(string \<Rightarrow> string) \<Rightarrow> (string \<rightharpoonup> jsval) \<Rightarrow> grading \<Rightarrow> question list \<Rightarrow> error + grading" where
  "gradeAll lower ans g [] = Inr g"
| "gradeAll lower ans g (q # qs) =
     (case gradeQuestion lower ans g q of
        Inl e \<Rightarrow> Inl e
      | Inr g' \<Rightarrow> gradeAll lower ans g' qs)"

text \<open>
  \<open>tok\<close> is the body's \<^verbatim>\<open>token\<close>, \<open>ans\<close> its \<^verbatim>\<open>answers\<close> object (\<open>None\<close>: absent or
  falsy), \<open>now\<close> the time of submission. The response is \<^verbatim>\<open>{ score, totalMCQs }\<close>. The stored
  \<^verbatim>\<open>openEndedAnswers\<close> are the ones the next request reads back from the file.
\<close>

definition submit ::
  "(string \<Rightarrow> string) \<Rightarrow> store \<Rightarrow> string \<Rightarrow> (string \<rightharpoonup> jsval) option \<Rightarrow> int
     \<Rightarrow> store \<times> (error + int \<times> int)" where
  "submit lower st tok ans now =
     (if tok = [] then (st, Inl BadRequest)
      else case ans of
        None \<Rightarrow> (st, Inl BadRequest)
      | Some a \<Rightarrow>
          (case find (is_student_token tok) (users st) of
             None \<Rightarrow> (st, Inl Forbidden)
           | Some u \<Rightarrow>
               (case find (\<lambda>sub. token sub = tok) (submissions st) of
                  Some alreadySubmitted \<Rightarrow> (st, Inl DuplicateSubmission)
                | None \<Rightarrow>
                    (case gradeAll lower a grading0 (questions st) of
                       Inl e \<Rightarrow> (st, Inl e)
                     | Inr g \<Rightarrow>
                         (st\<lparr>submissions := submissions st @
                               [\<lparr>token = tok,
                                 studentName = firstName u @ '' '' @ lastName u,
                                 answers = a,
                                 openEndedAnswers = Some (json_props (g_openEndedAnswers g)),
                                 openAnswerGrades = Some Map.empty,
                                 score = g_score g,
                                 totalMCQs = g_totalMCQs g,
                                 submittedAt = now\<rparr>]\<rparr>,
                          Inr (g_score g, g_totalMCQs g))))))"

text \<open>
  The loop of \<^verbatim>\<open>server.js\<close> has the multiple-choice branch only, and its submissions carry
  no open-ended fields.
\<close>

definition gradeQuestionMCQ ::
  "(string \<Rightarrow> string) \<Rightarrow> (string \<rightharpoonup> jsval) \<Rightarrow> grading \<Rightarrow> question \<Rightarrow> error + grading" where
  "gradeQuestionMCQ lower ans g q =
     (if qtype q = ''multiple-choice'' then
        (let g1 = g\<lparr>g_totalMCQs := g_totalMCQs g + 1\<rparr> in
         if truthy (js_get ans (qid q)) then
           (case js_get ans (qid q) of
              JStr a \<Rightarrow>
                (case correctAnswer q of
                   None \<Rightarrow> Inl TypeError
                 | Some c \<Rightarrow>
                     Inr (if lower a = lower c then g1\<lparr>g_score := g_score g1 + 1\<rparr> else g1))
            | _ \<Rightarrow> Inl TypeError)
         else Inr g1)
      else Inr g)"

fun gradeAllMCQ ::
  "(string \<Rightarrow> string) \<Rightarrow> (string \<rightharpoonup> jsval) \<Rightarrow> grading \<Rightarrow> question list \<Rightarrow> error + grading" where
  "gradeAllMCQ lower ans g [] = Inr g"
| "gradeAllMCQ lower ans g (q # qs) =
     (case gradeQuestionMCQ lower ans g q of
        Inl e \<Rightarrow> Inl e
      | Inr g' \<Rightarrow> gradeAllMCQ lower ans g' qs)"

definition submitMCQ ::
  "(string \<Rightarrow> string) \<Rightarrow> store \<Rightarrow> string \<Rightarrow> (string \<rightharpoonup> jsval) option \<Rightarrow> int
     \<Rightarrow> store \<times> (error + int \<times> int)" where
  "submitMCQ lower st tok ans now =
     (if tok = [] then (st, Inl BadRequest)
      else case ans of
        None \<Rightarrow> (st, Inl BadRequest)
      | Some a \<Rightarrow>
          (case find (is_student_token tok) (users st) of
             None \<Rightarrow> (st, Inl Forbidden)
           | Some u \<Rightarrow>
               (case find (\<lambda>sub. token sub = tok) (submissions st) of
                  Some alreadySubmitted \<Rightarrow> (st, Inl DuplicateSubmission)
                | None \<Rightarrow>
                    (case gradeAllMCQ lower a grading0 (questions st) of
                       Inl e \<Rightarrow> (st, Inl e)
                     | Inr g \<Rightarrow>
                         (st\<lparr>submissions := submissions st @
                               [\<lparr>token = tok,
                                 studentName = firstName u @ '' '' @ lastName u,
                                 answers = a,
                                 openEndedAnswers = None,
                                 openAnswerGrades = None,
                                 score = g_score g,
                                 totalMCQs = g_totalMCQs g,
                                 submittedAt = now\<rparr>]\<rparr>,
                          Inr (g_score g, g_totalMCQs g))))))"

section \<open>GET /teacher/results\<close>

record result_row =
  row_studentName :: string
  correctCount :: int
  totalQuestions :: int

definition teacherResults :: "store \<Rightarrow> string \<Rightarrow> error + result_row list" where
  "teacherResults st tok =
     (if tok = [] then Inl BadRequest
      else case find (is_teacher_token tok) (users st) of
        None \<Rightarrow> Inl Forbidden
      | Some teacher \<Rightarrow>
          Inr (map (\<lambda>sub. \<lparr>row_studentName = studentName sub,
                             correctCount = score sub,
                             totalQuestions = totalMCQs sub\<rparr>)
                 (submissions st)))"

section \<open>POST /teacher/mark-open-question\<close>

text \<open>
  \<^verbatim>\<open>find\<close> answers the first matching element itself, which the handler then mutates:
  the model finds its index and writes the changed element back at that index.
\<close>

fun findIndex :: "('a \<Rightarrow> bool) \<Rightarrow> 'a list \<Rightarrow> nat option" where
  "findIndex P [] = None"
| "findIndex P (x # xs) = (if P x then Some 0 else map_option Suc (findIndex P xs))"

text \<open>The \<^verbatim>\<open>if\<close> chain that sets \<^verbatim>\<open>scoreChange\<close>, which starts at 0.\<close>

definition computeScoreChange :: "jsval \<Rightarrow> jsval \<Rightarrow> int" where
  "computeScoreChange currentGrade newGrade =
     (if currentGrade = JUndefined then (if truthy newGrade then 1 else 0)
      else if currentGrade = JBool True \<and> newGrade = JBool False then - 1
      else if currentGrade = JBool False \<and> newGrade = JBool True then 1
      else 0)"

record mark_response =
  updatedScore :: int
  previousGrade :: jsval
  newGrade :: jsval
  scoreChange :: int

text \<open>
  What the handler does to the submission it found, from
  \<^verbatim>\<open>if (!submission.openAnswerGrades)\<close> on.
\<close>

definition markSubmission :: "submission \<Rightarrow> string \<Rightarrow> jsval \<Rightarrow> submission \<times> mark_response" where
  "markSubmission sub questionText isCorrect =
     (let grades = (case openAnswerGrades sub of None \<Rightarrow> Map.empty | Some g \<Rightarrow> g);
          currentGrade = js_get grades questionText;
          change = computeScoreChange currentGrade isCorrect;
          raised = score sub + change;
          clamped = (if raised < 0 then 0 else raised)
      in (sub\<lparr>openAnswerGrades := Some (js_set grades questionText isCorrect), score := clamped\<rparr>,
          \<lparr>updatedScore = clamped, previousGrade = currentGrade, newGrade = isCorrect,
            scoreChange = change\<rparr>))"

text \<open>
  \<open>tok\<close>, \<open>name\<close> and \<open>questionText\<close> are the body's \<^verbatim>\<open>token\<close>, \<^verbatim>\<open>studentName\<close> and
  \<^verbatim>\<open>questionText\<close>; \<open>isCorrect\<close> is whatever JSON value the body holds under that name
  (\<open>JUndefined\<close>: absent).
\<close>

definition markOpenQuestion ::
  "store \<Rightarrow> string \<Rightarrow> string \<Rightarrow> string \<Rightarrow> jsval \<Rightarrow> store \<times> (error + mark_response)" where
  "markOpenQuestion st tok name questionText isCorrect =
     (if tok = [] \<or> name = [] \<or> questionText = [] \<or> isCorrect = JUndefined
      then (st, Inl BadRequest)
      else case find (is_teacher_token tok) (users st) of
        None \<Rightarrow> (st, Inl Forbidden)
      | Some teacher \<Rightarrow>
          (case findIndex (\<lambda>sub. studentName sub = name) (submissions st) of
             None \<Rightarrow> (st, Inl SubmissionNotFound)
           | Some i \<Rightarrow>
               (case find (\<lambda>q. qtext q = questionText)
                       (filter (\<lambda>q. qtype q = ''open-ended'') (questions st)) of
                  None \<Rightarrow> (st, Inl QuestionNotFound)
                | Some question \<Rightarrow>
                    (let (sub', response) =
                           markSubmission (submissions st ! i) questionText isCorrect
                     in (st\<lparr>submissions := (submissions st)[i := sub']\<rparr>, Inr response)))))"

section \<open>Sequences of requests\<close>

datatype request =
  SignIn string string string
  | SessionStart string "int option" int
  | SessionStartHour string int
  | Submit string "(string \<rightharpoonup> jsval) option" int
  | SubmitMCQ string "(string \<rightharpoonup> jsval) option" int
  | MarkOpenQuestion string string string jsval

text \<open>The store after one request; the requests that only read leave it as it is.\<close>

fun step :: "(string \<Rightarrow> string) \<Rightarrow> store \<Rightarrow> request \<Rightarrow> store" where
  "step lower st (SignIn fn ln newId) = fst (signin lower st fn ln newId)"
| "step lower st (SessionStart tok e now) = fst (sessionStart st tok e now)"
| "step lower st (SessionStartHour tok now) = fst (sessionStartHour st tok now)"
| "step lower st (Submit tok ans now) = fst (submit lower st tok ans now)"
| "step lower st (SubmitMCQ tok ans now) = fst (submitMCQ lower st tok ans now)"
| "step lower st (MarkOpenQuestion tok name questionText isCorrect) =
     fst (markOpenQuestion st tok name questionText isCorrect)"

definition run :: "(string \<Rightarrow> string) \<Rightarrow> store \<Rightarrow> request list \<Rightarrow> store" where
  "run lower st reqs = foldl (step lower) st reqs"

section \<open>The spec's grade transition table\<close>

text \<open>
  The table of the spec, row by row: the previous grade is \<open>None\<close> for an ungraded answer.
\<close>

fun grade_transition_table :: "bool option \<Rightarrow> bool \<Rightarrow> int" where
  "grade_transition_table None True = 1"
| "grade_transition_table None False = 0"
| "grade_transition_table (Some True) False = - 1"
| "grade_transition_table (Some False) True = 1"
| "grade_transition_table (Some True) True = 0"
| "grade_transition_table (Some False) False = 0"

section \<open>Auxiliary notions\<close>

text \<open>
  The answer found for a multiple-choice question is a non-empty string that equals the
  question's \<^verbatim>\<open>correctAnswer\<close> after \<^verbatim>\<open>toLowerCase\<close> on both.
\<close>

definition answer_matches :: "(string \<Rightarrow> string) \<Rightarrow> (string \<rightharpoonup> jsval) \<Rightarrow> question \<Rightarrow> bool" where
  "answer_matches lower ans q \<longleftrightarrow>
     (case js_get ans (qid q) of
        JStr a \<Rightarrow> a \<noteq> [] \<and> (case correctAnswer q of Some c \<Rightarrow> lower a = lower c | None \<Rightarrow> False)
      | _ \<Rightarrow> False)"

text \<open>
  The loop body does not throw at the question: what it finds for a multiple-choice question
  is falsy, or a string while the question has a \<^verbatim>\<open>correctAnswer\<close>.
\<close>

definition gradable :: "(string \<rightharpoonup> jsval) \<Rightarrow> question \<Rightarrow> bool" where
  "gradable ans q \<longleftrightarrow>
     (if qtype q = ''multiple-choice'' \<and> truthy (js_get ans (qid q))
      then (case js_get ans (qid q) of JStr a \<Rightarrow> correctAnswer q \<noteq> None | _ \<Rightarrow> False)
      else True)"

text \<open>\<^verbatim>\<open>answers[k] || "No answer"\<close>.\<close>

definition openAnswerOf :: "(string \<rightharpoonup> jsval) \<Rightarrow> string \<Rightarrow> jsval" where
  "openAnswerOf ans k = (if truthy (js_get ans k) then js_get ans k else JStr ''No answer'')"

text \<open>The grades of a submission as the marking handler sees them.\<close>

definition grades_of :: "submission \<Rightarrow> (string \<rightharpoonup> jsval)" where
  "grades_of sub = (case openAnswerGrades sub of None \<Rightarrow> Map.empty | Some g \<Rightarrow> g)"

text \<open>
  The marking handler passes its four checks and finds the submission at index \<open>i\<close>.
\<close>

definition mark_ok :: "store \<Rightarrow> string \<Rightarrow> string \<Rightarrow> string \<Rightarrow> jsval \<Rightarrow> nat \<Rightarrow> bool" where
  "mark_ok st tok name qt v i \<longleftrightarrow>
     tok \<noteq> [] \<and> name \<noteq> [] \<and> qt \<noteq> [] \<and> v \<noteq> JUndefined \<and>
     find (is_teacher_token tok) (users st) \<noteq> None \<and>
     findIndex (\<lambda>sub. studentName sub = name) (submissions st) = Some i \<and>
     find (\<lambda>q. qtext q = qt) (filter (\<lambda>q. qtype q = ''open-ended'') (questions st)) \<noteq> None"

text \<open>
  A submission that a submit handler may append for the token \<open>tok\<close>.
\<close>

definition appended :: "store \<Rightarrow> string \<Rightarrow> submission \<Rightarrow> bool" where
  "appended st tok s \<longleftrightarrow>
     token s = tok \<and> tok \<noteq> [] \<and> 0 \<le> score s \<and>
     (\<forall>x \<in> set (submissions st). token x \<noteq> tok) \<and>
     (\<exists>u \<in> set (users st). is_student_token tok u)"

text \<open>
  No two submissions share a token, and every submission's token is a non-empty string that
  is the id of a student.
\<close>

definition submissions_wf :: "store \<Rightarrow> bool" where
  "submissions_wf st \<longleftrightarrow>
     distinct (map token (submissions st)) \<and>
     (\<forall>s \<in> set (submissions st). token s \<noteq> [] \<and> (\<exists>u \<in> set (users st). is_student_token (token s) u))"

section \<open>Example data\<close>

text \<open>A \<^verbatim>\<open>toLowerCase\<close> for the strings of the examples: the ASCII letters.\<close>

definition ascii_lower_char :: "char \<Rightarrow> char" where
  "ascii_lower_char c =
     (case map_of (zip ''ABCDEFGHIJKLMNOPQRSTUVWXYZ'' ''abcdefghijklmnopqrstuvwxyz'') c of
        Some l \<Rightarrow> l
      | None \<Rightarrow> c)"

definition ascii_lower :: "string \<Rightarrow> string" where
  "ascii_lower s = map ascii_lower_char s"

text \<open>A quiz of one multiple-choice and one open-ended question, and its teacher.\<close>

definition ex_mcq :: question where
  "ex_mcq = \<lparr>qid = ''q1'', qtext = ''2 + 2 = ?'', qtype = ''multiple-choice'',
             choices = Some [''a'', ''b''], correctAnswer = Some ''a''\<rparr>"

definition ex_open :: question where
  "ex_open = \<lparr>qid = ''q2'', qtext = ''Why?'', qtype = ''open-ended'',
              choices = None, correctAnswer = None\<rparr>"

definition ex_store :: store where
  "ex_store = \<lparr>teachers = [\<lparr>firstName = ''Ada'', lastName = ''Lovelace''\<rparr>],
                users = [], sessions = [], submissions = [],
                questions = [ex_mcq, ex_open]\<rparr>"

text \<open>
  Two session files: one whose latest session ends before it starts, and one whose latest
  session runs from 10 to 20 after an older one.
\<close>

definition ex_skewed :: store where
  "ex_skewed = ex_store\<lparr>sessions := [\<lparr>startTime = 10, endTime = 5\<rparr>]\<rparr>"

definition ex_running :: store where
  "ex_running =
     ex_store\<lparr>sessions := [\<lparr>startTime = 0, endTime = 1\<rparr>, \<lparr>startTime = 10, endTime = 20\<rparr>]\<rparr>"

text \<open>
  The scenario of the spec: the teacher Ada Lovelace signs in and starts a session,
  the student Bob Smith signs in and submits \<^verbatim>\<open>"A"\<close> for the multiple-choice question,
  whose key is \<^verbatim>\<open>"a"\<close>, and an answer for the open-ended one.
\<close>

definition ex_answers :: "string \<rightharpoonup> jsval" where
  "ex_answers = [''q1'' \<mapsto> JStr ''A'', ''q2'' \<mapsto> JStr ''because'']"

definition ex_requests :: "request list" where
  "ex_requests =
     [SignIn ''Ada'' ''Lovelace'' ''t1'',
      SessionStart ''t1'' (Some 3600000) 0,
      SignIn ''Bob'' ''Smith'' ''s1'',
      Submit ''s1'' (Some ex_answers) 5]"

definition ex_submitted :: store where
  "ex_submitted = run ascii_lower ex_store ex_requests"

text \<open>
  Another run: Bob submits no answers at all, and the teacher sends the verdict
  \<^verbatim>\<open>null\<close> and then the verdict \<^verbatim>\<open>true\<close> for the open-ended question.
\<close>

definition ex_blank_requests :: "request list" where
  "ex_blank_requests =
     [SignIn ''Ada'' ''Lovelace'' ''t1'',
      SignIn ''Bob'' ''Smith'' ''s1'',
      Submit ''s1'' (Some Map.empty) 5,
      MarkOpenQuestion ''t1'' ''Bob Smith'' ''Why?'' JNull,
      MarkOpenQuestion ''t1'' ''Bob Smith'' ''Why?'' (JBool True)]"

definition ex_regraded :: store where
  "ex_regraded = run ascii_lower ex_store ex_blank_requests"



text \<open>An answers object whose answer to the open-ended question is the empty string.\<close>

definition ex_empty_answer :: "string \<rightharpoonup> jsval" where
  "ex_empty_answer = [''q2'' \<mapsto> JStr []]"

section \<open>The session gate of GET /questions\<close>

text \<open>
  C2, as the code has it. The handler looks at the latest session only and tests
  \<^verbatim>\<open>now > endTime\<close> before \<^verbatim>\<open>now < startTime\<close>: it answers NotStarted when there is
  no session, Ended when the latest session's end has passed (whatever its start), NotStarted
  when the end has not passed and the start is still ahead, and otherwise serves the
  questions with the remaining time \<open>endTime - now\<close>.
\<close>

theorem getQuestions_gate:
  "(sessions st = [] \<longrightarrow> getQuestions st now = Inl NotStarted) \<and>
   (sessions st \<noteq> [] \<and> endTime (last (sessions st)) < now \<longrightarrow>
      getQuestions st now = Inl Ended) \<and>
   (sessions st \<noteq> [] \<and> now \<le> endTime (last (sessions st)) \<and>
      now < startTime (last (sessions st)) \<longrightarrow>
      getQuestions st now = Inl NotStarted) \<and>
   (sessions st \<noteq> [] \<and> startTime (last (sessions st)) \<le> now \<and>
      now \<le> endTime (last (sessions st)) \<longrightarrow>
      getQuestions st now =
        Inr (endTime (last (sessions st)) - now, map strip_answer (questions st)))"
  by (simp add: getQuestions_def gate_def Let_def)

theorem getQuestions_gate_witness:
  "getQuestions ex_store 7 = Inl NotStarted \<and>
   getQuestions ex_skewed 7 = Inl Ended \<and>
   getQuestions ex_running 7 = Inl NotStarted \<and>
   getQuestions ex_running 15 = Inr (5, map strip_answer [ex_mcq, ex_open])"
  using getQuestions_gate [of ex_store 7] getQuestions_gate [of ex_skewed 7]
    getQuestions_gate [of ex_running 7] getQuestions_gate [of ex_running 15]
  by (simp add: ex_store_def ex_skewed_def ex_running_def)

text \<open>
  C2 as the spec states it fails where the latest session ends before it starts and the
  instant lies between the two: at 7, with a session from 10 to 5, the start is still ahead,
  and the handler answers Ended, not NotStarted.
\<close>

theorem getQuestions_gate_counterexample:
  "sessions ex_skewed \<noteq> [] \<and> 7 < startTime (last (sessions ex_skewed)) \<and>
   getQuestions ex_skewed 7 = Inl Ended \<and> getQuestions ex_skewed 7 \<noteq> Inl NotStarted"
  by (simp add: ex_skewed_def ex_store_def getQuestions_def gate_def)

section \<open>The answer key is not served\<close>

text \<open>
  C8. When GET /questions succeeds, it returns one question per stored question, in order;
  none of them has a \<^verbatim>\<open>correctAnswer\<close>, and the id, text, type and choices of each are
  those of the stored question.
\<close>

theorem getQuestions_strips_answer_key:
  assumes "getQuestions st now = Inr (remaining, qs)"
  shows "length qs = length (questions st) \<and>
         (\<forall>i < length qs.
            correctAnswer (qs ! i) = None \<and>
            qid (qs ! i) = qid (questions st ! i) \<and>
            qtext (qs ! i) = qtext (questions st ! i) \<and>
            qtype (qs ! i) = qtype (questions st ! i) \<and>
            choices (qs ! i) = choices (questions st ! i))"
proof -
  from assms have "qs = map strip_answer (questions st)"
    by (auto simp: getQuestions_def split: sum.splits)
  then show ?thesis
    by (simp add: strip_answer_def)
qed

theorem getQuestions_strips_answer_key_witness:
  "getQuestions ex_running 15 = Inr (5, map strip_answer [ex_mcq, ex_open]) \<and>
   correctAnswer ex_mcq = Some ''a'' \<and>
   map correctAnswer (map strip_answer [ex_mcq, ex_open]) = [None, None] \<and>
   map qid (map strip_answer [ex_mcq, ex_open]) = [''q1'', ''q2'']"
proof -
  have served: "getQuestions ex_running 15 = Inr (5, map strip_answer [ex_mcq, ex_open])"
    by (simp add: ex_running_def ex_store_def getQuestions_def gate_def)
  show ?thesis
    using served getQuestions_strips_answer_key [OF served]
    by (simp add: ex_running_def ex_store_def ex_mcq_def ex_open_def strip_answer_def)
qed

section \<open>Signing in twice\<close>

lemma find_snoc_new: "find P xs = None \<Longrightarrow> P u \<Longrightarrow> find P (xs @ [u]) = Some u"
  by (induction xs) auto

text \<open>
  C7. A sign-in with two non-empty names succeeds and answers a token and a role. Where a
  stored user has the same names after \<^verbatim>\<open>toLowerCase\<close>, it answers the id and the role of
  the first such user and leaves the store as it is. Where none has, it appends one user
  record to the store, with the names as given, the new id, and the role teacher exactly
  when a stored teacher has the same names after \<^verbatim>\<open>toLowerCase\<close>, and answers that id and
  role. A second sign-in with names that are non-empty and equal to the first ones after
  \<^verbatim>\<open>toLowerCase\<close> (the same names, or the same in another casing) answers the same
  token and role, whatever new id was drawn for it, and leaves the store as the first one left
  it: it persists nothing.
\<close>

theorem signin_idempotent:
  assumes nonempty: "fn \<noteq> []" "ln \<noteq> []" "fn' \<noteq> []" "ln' \<noteq> []"
    and casing: "lower fn' = lower fn" "lower ln' = lower ln"
  shows "\<exists>st1 tok r.
           signin lower st fn ln id1 = (st1, Inr (tok, r)) \<and>
           signin lower st1 fn' ln' id2 = (st1, Inr (tok, r)) \<and>
           (st1 = st \<or> (\<exists>u. st1 = st\<lparr>users := users st @ [u]\<rparr>)) \<and>
           (\<forall>u. find (same_name lower fn ln) (users st) = Some u \<longrightarrow>
              st1 = st \<and> tok = uid u \<and> r = role u) \<and>
           (find (same_name lower fn ln) (users st) = None \<longrightarrow>
              tok = id1 \<and>
              r = (if \<exists>t \<in> set (teachers st). same_name lower fn ln t then Teacher else Student) \<and>
              st1 = st\<lparr>users := users st @
                      [\<lparr>firstName = fn, lastName = ln, uid = tok, role = r\<rparr>]\<rparr>)"
proof -
  have pred: "same_name lower fn' ln' = (same_name lower fn ln :: user \<Rightarrow> bool)"
    by (simp add: same_name_def fun_eq_iff casing)
  show ?thesis
  proof (cases "find (same_name lower fn ln) (users st)")
    case None
    define r0 where
      "r0 = (if \<exists>t \<in> set (teachers st). same_name lower fn ln t then Teacher else Student)"
    define u where "u = \<lparr>firstName = fn, lastName = ln, uid = id1, role = r0\<rparr>"
    define st1 where "st1 = st\<lparr>users := users st @ [u]\<rparr>"
    from None nonempty have first: "signin lower st fn ln id1 = (st1, Inr (id1, r0))"
      by (simp add: signin_def Let_def u_def st1_def r0_def list_ex_iff)
    have "same_name lower fn ln u"
      by (simp add: same_name_def u_def)
    with None have "find (same_name lower fn ln) (users st1) = Some u"
      by (simp add: st1_def find_snoc_new)
    then have second: "signin lower st1 fn' ln' id2 = (st1, Inr (id1, r0))"
      using nonempty by (simp add: signin_def pred Let_def u_def)
    show ?thesis
    proof (intro exI conjI)
      show "signin lower st fn ln id1 = (st1, Inr (id1, r0))" by (rule first)
      show "signin lower st1 fn' ln' id2 = (st1, Inr (id1, r0))" by (rule second)
      show "st1 = st \<or> (\<exists>u. st1 = st\<lparr>users := users st @ [u]\<rparr>)"
        unfolding st1_def by blast
      show "\<forall>u. find (same_name lower fn ln) (users st) = Some u \<longrightarrow>
              st1 = st \<and> id1 = uid u \<and> r0 = role u"
        using None by simp
      show "find (same_name lower fn ln) (users st) = None \<longrightarrow>
              id1 = id1 \<and>
              r0 = (if \<exists>t \<in> set (teachers st). same_name lower fn ln t then Teacher else Student) \<and>
              st1 = st\<lparr>users := users st @
                      [\<lparr>firstName = fn, lastName = ln, uid = id1, role = r0\<rparr>]\<rparr>"
        by (simp add: st1_def u_def r0_def)
    qed
  next
    case (Some u)
    with nonempty have "signin lower st fn ln id1 = (st, Inr (uid u, role u))"
      and "signin lower st fn' ln' id2 = (st, Inr (uid u, role u))"
      by (simp_all add: signin_def pred Let_def)
    with Some show ?thesis
      by (intro exI [of _ st] exI [of _ "uid u"] exI [of _ "role u"]) simp
  qed
qed

theorem signin_idempotent_witness:
  "signin ascii_lower ex_store ''Bob'' ''Smith'' ''s1'' =
     (ex_store\<lparr>users := users ex_store @
         [\<lparr>firstName = ''Bob'', lastName = ''Smith'', uid = ''s1'', role = Student\<rparr>]\<rparr>,
      Inr (''s1'', Student)) \<and>
   signin ascii_lower
     (ex_store\<lparr>users := users ex_store @
         [\<lparr>firstName = ''Bob'', lastName = ''Smith'', uid = ''s1'', role = Student\<rparr>]\<rparr>)
     ''BOB'' ''smith'' ''s2'' =
     (ex_store\<lparr>users := users ex_store @
         [\<lparr>firstName = ''Bob'', lastName = ''Smith'', uid = ''s1'', role = Student\<rparr>]\<rparr>,
      Inr (''s1'', Student)) \<and>
   signin ascii_lower ex_store ''ada'' ''LOVELACE'' ''t1'' =
     (ex_store\<lparr>users := users ex_store @
         [\<lparr>firstName = ''ada'', lastName = ''LOVELACE'', uid = ''t1'', role = Teacher\<rparr>]\<rparr>,
      Inr (''t1'', Teacher))"
proof -
  have c1: "ascii_lower ''BOB'' = ascii_lower ''Bob''"
    by (simp add: ascii_lower_def ascii_lower_char_def)
  have c2: "ascii_lower ''smith'' = ascii_lower ''Smith''"
    by (simp add: ascii_lower_def ascii_lower_char_def)
  have none: "find (same_name ascii_lower fn ln) (users ex_store) = None" for fn ln
    by (simp add: ex_store_def)
  have student: "\<not> (\<exists>t \<in> set (teachers ex_store). same_name ascii_lower ''Bob'' ''Smith'' t)"
    by (simp add: ex_store_def same_name_def ascii_lower_def ascii_lower_char_def)
  have teacher: "\<exists>t \<in> set (teachers ex_store). same_name ascii_lower ''ada'' ''LOVELACE'' t"
    by (simp add: ex_store_def same_name_def ascii_lower_def ascii_lower_char_def)
  have "\<exists>st1 tok r.
      signin ascii_lower ex_store ''Bob'' ''Smith'' ''s1'' = (st1, Inr (tok, r)) \<and>
      signin ascii_lower st1 ''BOB'' ''smith'' ''s2'' = (st1, Inr (tok, r)) \<and>
      tok = ''s1'' \<and> r = Student \<and>
      st1 = ex_store\<lparr>users := users ex_store @
         [\<lparr>firstName = ''Bob'', lastName = ''Smith'', uid = tok, role = r\<rparr>]\<rparr>"
    using signin_idempotent
      [where lower = ascii_lower and st = ex_store and fn = "''Bob''" and ln = "''Smith''"
         and fn' = "''BOB''" and ln' = "''smith''" and ?id1.0 = "''s1''" and ?id2.0 = "''s2''"]
      c1 c2 none student
    by fastforce
  moreover have "\<exists>st1 tok r.
      signin ascii_lower ex_store ''ada'' ''LOVELACE'' ''t1'' = (st1, Inr (tok, r)) \<and>
      tok = ''t1'' \<and> r = Teacher \<and>
      st1 = ex_store\<lparr>users := users ex_store @
         [\<lparr>firstName = ''ada'', lastName = ''LOVELACE'', uid = tok, role = r\<rparr>]\<rparr>"
    using signin_idempotent
      [where lower = ascii_lower and st = ex_store and fn = "''ada''" and ln = "''LOVELACE''"
         and fn' = "''ada''" and ln' = "''LOVELACE''" and ?id1.0 = "''t1''" and ?id2.0 = "''t2''"]
      none teacher
    by fastforce
  ultimately show ?thesis
    by auto
qed

section \<open>Finding in lists\<close>

lemma findIndex_Some:
  "findIndex P xs = Some i \<Longrightarrow> i < length xs \<and> P (xs ! i) \<and> (\<forall>j < i. \<not> P (xs ! j))"
proof (induction xs arbitrary: i)
  case Nil
  then show ?case by simp
next
  case (Cons x xs)
  show ?case
  proof (cases "P x")
    case True
    with Cons.prems show ?thesis by simp
  next
    case False
    with Cons.prems obtain k where k: "findIndex P xs = Some k" "i = Suc k"
      by auto
    from Cons.IH [OF k(1)] False k(2) show ?thesis
      by (auto simp: less_Suc_eq_0_disj)
  qed
qed


lemma findIndex_update:
  "i < length xs \<Longrightarrow> P y = P (xs ! i) \<Longrightarrow> findIndex P (xs[i := y]) = findIndex P xs"
proof (induction xs arbitrary: i)
  case Nil
  then show ?case by simp
next
  case (Cons x xs)
  then show ?case by (cases i) auto
qed

lemma find_Some_set: "find P xs = Some x \<Longrightarrow> x \<in> set xs \<and> P x"
  by (induction xs) (auto split: if_splits)

lemma find_None_set: "find P xs = None \<longleftrightarrow> (\<forall>x \<in> set xs. \<not> P x)"
  by (induction xs) auto

section \<open>Marking an open-ended answer\<close>

lemma markOpenQuestion_Inr:
  assumes "markOpenQuestion st tok name qt v = (st', Inr r)"
  shows "\<exists>i. mark_ok st tok name qt v i \<and>
             st' = st\<lparr>submissions := (submissions st)[i := fst (markSubmission (submissions st ! i) qt v)]\<rparr> \<and>
             r = snd (markSubmission (submissions st ! i) qt v)"
  using assms
  by (auto simp: markOpenQuestion_def mark_ok_def split: if_splits option.splits prod.splits)

lemma markOpenQuestion_ok:
  assumes "mark_ok st tok name qt v i"
  shows "markOpenQuestion st tok name qt v =
           (st\<lparr>submissions := (submissions st)[i := fst (markSubmission (submissions st ! i) qt v)]\<rparr>,
            Inr (snd (markSubmission (submissions st ! i) qt v)))"
  using assms
  by (auto simp: markOpenQuestion_def mark_ok_def split: option.splits prod.splits)

lemma markOpenQuestion_Inl: "markOpenQuestion st tok name qt v = (st', Inl e) \<Longrightarrow> st' = st"
  by (auto simp: markOpenQuestion_def split: if_splits option.splits prod.splits)

lemma computeScoreChange_table:
  "computeScoreChange JUndefined (JBool b) = grade_transition_table None b"
  "computeScoreChange (JBool p) (JBool b) = grade_transition_table (Some p) b"
  by (cases b; cases p; simp add: computeScoreChange_def)+

lemma markSubmission_eq:
  "markSubmission sub qt v =
     (sub\<lparr>openAnswerGrades := Some (js_set (grades_of sub) qt v),
          score := max 0 (score sub + computeScoreChange (js_get (grades_of sub) qt) v)\<rparr>,
      \<lparr>updatedScore = max 0 (score sub + computeScoreChange (js_get (grades_of sub) qt) v),
        previousGrade = js_get (grades_of sub) qt, newGrade = v,
        scoreChange = computeScoreChange (js_get (grades_of sub) qt) v\<rparr>)"
  by (simp add: markSubmission_def grades_of_def Let_def max_def)

text \<open>
  C1, as the code has it. When the marking handler succeeds with a boolean verdict, it has
  found the first submission with the given student name; the previous grade it reports is the
  value it read from \<^verbatim>\<open>openAnswerGrades[questionText]\<close>, which is \<^verbatim>\<open>undefined\<close> when
  there is no entry for the question text (unless the text names a member of
  \<^verbatim>\<open>Object.prototype\<close>) and the stored boolean when there is one; the score change is the
  one the spec's table gives, where ungraded means that the value read was \<^verbatim>\<open>undefined\<close>;
  the new score is the old one plus the change, but not less than 0; the store differs from
  the old one in that submission's score and grades only, and the verdict is assigned to
  \<^verbatim>\<open>openAnswerGrades[questionText]\<close>, which records it under every question text but
  \<^verbatim>\<open>__proto__\<close>.
\<close>

theorem markOpenQuestion_transition:
  assumes "markOpenQuestion st tok name qt (JBool b) = (st', Inr r)"
  shows "\<exists>i. findIndex (\<lambda>sub. studentName sub = name) (submissions st) = Some i \<and>
           previousGrade r = js_get (grades_of (submissions st ! i)) qt \<and>
           (grades_of (submissions st ! i) qt = None \<and> qt \<noteq> ''__proto__'' \<and>
              qt \<notin> set object_prototype_methods \<longrightarrow> previousGrade r = JUndefined) \<and>
           (\<forall>p. grades_of (submissions st ! i) qt = Some (JBool p) \<longrightarrow> previousGrade r = JBool p) \<and>
           newGrade r = JBool b \<and>
           (previousGrade r = JUndefined \<longrightarrow> scoreChange r = grade_transition_table None b) \<and>
           (\<forall>p. previousGrade r = JBool p \<longrightarrow> scoreChange r = grade_transition_table (Some p) b) \<and>
           updatedScore r = max 0 (score (submissions st ! i) + scoreChange r) \<and>
           st' = st\<lparr>submissions := (submissions st)
                   [i := (submissions st ! i)
                      \<lparr>openAnswerGrades := Some (js_set (grades_of (submissions st ! i)) qt (JBool b)),
                       score := updatedScore r\<rparr>]\<rparr> \<and>
           (qt \<noteq> ''__proto__'' \<longrightarrow>
              js_set (grades_of (submissions st ! i)) qt (JBool b) qt = Some (JBool b))"
proof -
  from markOpenQuestion_Inr [OF assms] obtain i where
    ok: "mark_ok st tok name qt (JBool b) i" and
    st': "st' = st\<lparr>submissions := (submissions st)[i := fst (markSubmission (submissions st ! i) qt (JBool b))]\<rparr>" and
    r: "r = snd (markSubmission (submissions st ! i) qt (JBool b))"
    by blast
  from ok have "findIndex (\<lambda>sub. studentName sub = name) (submissions st) = Some i"
    by (simp add: mark_ok_def)
  moreover have "(previousGrade r = JUndefined \<longrightarrow> scoreChange r = grade_transition_table None b) \<and>
           (\<forall>p. previousGrade r = JBool p \<longrightarrow> scoreChange r = grade_transition_table (Some p) b)"
    by (auto simp: r markSubmission_eq computeScoreChange_table)
  moreover have "(grades_of (submissions st ! i) qt = None \<and> qt \<noteq> ''__proto__'' \<and>
              qt \<notin> set object_prototype_methods \<longrightarrow> previousGrade r = JUndefined) \<and>
           (\<forall>p. grades_of (submissions st ! i) qt = Some (JBool p) \<longrightarrow> previousGrade r = JBool p)"
    by (simp add: r markSubmission_eq js_get_def)
  ultimately show ?thesis
    by (intro exI [of _ i]) (simp add: st' r markSubmission_eq js_set_def)
qed

theorem markOpenQuestion_transition_witness:
  "snd (markOpenQuestion ex_submitted ''t1'' ''Bob Smith'' ''Why?'' (JBool True)) =
     Inr \<lparr>updatedScore = 2, previousGrade = JUndefined, newGrade = JBool True, scoreChange = 1\<rparr> \<and>
   grade_transition_table None True = 1 \<and>
   snd (markOpenQuestion ex_regraded ''t1'' ''Bob Smith'' ''Why?'' (JBool False)) =
     Inr \<lparr>updatedScore = 0, previousGrade = JBool True, newGrade = JBool False,
          scoreChange = - 1\<rparr> \<and>
   grade_transition_table (Some True) False = - 1"
proof -
  define r1 where "r1 = \<lparr>updatedScore = 2, previousGrade = JUndefined, newGrade = JBool True,
    scoreChange = 1\<rparr>"
  define r2 where "r2 = \<lparr>updatedScore = 0, previousGrade = JBool True, newGrade = JBool False,
    scoreChange = - 1\<rparr>"
  have res1: "snd (markOpenQuestion ex_submitted ''t1'' ''Bob Smith'' ''Why?'' (JBool True)) = Inr r1"
    unfolding r1_def by code_simp
  then have first: "markOpenQuestion ex_submitted ''t1'' ''Bob Smith'' ''Why?'' (JBool True) =
      (fst (markOpenQuestion ex_submitted ''t1'' ''Bob Smith'' ''Why?'' (JBool True)), Inr r1)"
    by (simp add: prod_eq_iff)
  have res2: "snd (markOpenQuestion ex_regraded ''t1'' ''Bob Smith'' ''Why?'' (JBool False)) = Inr r2"
    unfolding r2_def by code_simp
  then have second: "markOpenQuestion ex_regraded ''t1'' ''Bob Smith'' ''Why?'' (JBool False) =
      (fst (markOpenQuestion ex_regraded ''t1'' ''Bob Smith'' ''Why?'' (JBool False)), Inr r2)"
    by (simp add: prod_eq_iff)
  from markOpenQuestion_transition [OF first]
  have "scoreChange r1 = grade_transition_table None True"
    by (auto simp: r1_def)
  moreover from markOpenQuestion_transition [OF second]
  have "scoreChange r2 = grade_transition_table (Some True) False"
    by (auto simp: r2_def)
  ultimately show ?thesis
    using res1 res2 by (simp add: r1_def r2_def)
qed

text \<open>
  C1 as the spec states it fails where the floor at 0 comes into play. In the store reached
  by \<open>ex_blank_requests\<close>, Bob's score is 0 and his answer is graded true; marking it false
  gives the score change -1, and the score stays 0, which is not 0 + (-1).
\<close>

theorem markOpenQuestion_transition_counterexample:
  "map score (submissions ex_regraded) = [0] \<and>
   map (\<lambda>s. js_get (grades_of s) ''Why?'') (submissions ex_regraded) = [JBool True] \<and>
   snd (markOpenQuestion ex_regraded ''t1'' ''Bob Smith'' ''Why?'' (JBool False)) =
     Inr \<lparr>updatedScore = 0, previousGrade = JBool True, newGrade = JBool False,
          scoreChange = - 1\<rparr> \<and>
   map score
     (submissions (fst (markOpenQuestion ex_regraded ''t1'' ''Bob Smith'' ''Why?'' (JBool False)))) =
     [0] \<and>
   (0::int) \<noteq> 0 + - 1"
  by code_simp

text \<open>
  C5. When a marking request succeeds, the same request sent again succeeds too, with score
  change 0 and the same updated score, and leaves the store as the first one left it. This
  holds for every verdict the handler accepts, the two booleans among them.
\<close>

theorem markOpenQuestion_idempotent:
  assumes "markOpenQuestion st tok name qt v = (st1, Inr r1)"
  shows "\<exists>r2. markOpenQuestion st1 tok name qt v = (st1, Inr r2) \<and>
              scoreChange r2 = 0 \<and> updatedScore r2 = updatedScore r1"
proof -
  from markOpenQuestion_Inr [OF assms] obtain i where
    ok: "mark_ok st tok name qt v i" and
    st1: "st1 = st\<lparr>submissions := (submissions st)[i := fst (markSubmission (submissions st ! i) qt v)]\<rparr>" and
    r1: "r1 = snd (markSubmission (submissions st ! i) qt v)"
    by blast
  define sub where "sub = submissions st ! i"
  define sub1 where "sub1 = fst (markSubmission sub qt v)"
  from ok have i: "i < length (submissions st)" and v: "v \<noteq> JUndefined"
    by (auto simp: mark_ok_def dest: findIndex_Some)
  have name1: "studentName sub1 = studentName sub"
    by (simp add: sub1_def markSubmission_eq)
  have subs1: "submissions st1 = (submissions st)[i := sub1]"
    by (simp add: st1 sub1_def sub_def)
  have "findIndex (\<lambda>s. studentName s = name) ((submissions st)[i := sub1]) =
          findIndex (\<lambda>s. studentName s = name) (submissions st)"
    using i name1 by (intro findIndex_update) (simp_all add: sub_def)
  then have found1: "findIndex (\<lambda>s. studentName s = name) (submissions st1) = Some i"
    using ok by (simp add: subs1 mark_ok_def)
  have "users st1 = users st" "questions st1 = questions st"
    by (simp_all add: st1)
  with ok found1 have ok1: "mark_ok st1 tok name qt v i"
    by (simp add: mark_ok_def)
  have g1: "grades_of sub1 = js_set (grades_of sub) qt v"
    by (simp add: sub1_def markSubmission_eq grades_of_def)
  have change: "computeScoreChange (js_get (js_set (grades_of sub) qt v) qt) v = 0"
    using v by (auto simp: js_set_def js_get_def computeScoreChange_def)
  have again: "js_set (js_set (grades_of sub) qt v) qt v = js_set (grades_of sub) qt v"
    by (auto simp: js_set_def)
  have nonneg: "0 \<le> score sub1"
    by (simp add: sub1_def markSubmission_eq)
  have stable: "fst (markSubmission sub1 qt v) = sub1"
    using nonneg by (simp add: markSubmission_eq g1 change again) (simp add: sub1_def markSubmission_eq)
  have at_i: "submissions st1 ! i = sub1"
    using i by (simp add: subs1)
  have "markOpenQuestion st1 tok name qt v =
          (st1\<lparr>submissions := (submissions st1)[i := sub1]\<rparr>, Inr (snd (markSubmission sub1 qt v)))"
    using markOpenQuestion_ok [OF ok1] by (simp add: at_i stable)
  moreover have "st1\<lparr>submissions := (submissions st1)[i := sub1]\<rparr> = st1"
    by (simp add: subs1)
  moreover have "scoreChange (snd (markSubmission sub1 qt v)) = 0"
    by (simp add: markSubmission_eq g1 change)
  moreover have "updatedScore (snd (markSubmission sub1 qt v)) = updatedScore r1"
    using nonneg by (simp add: markSubmission_eq g1 change r1 sub_def [symmetric])
      (simp add: sub1_def markSubmission_eq)
  ultimately show ?thesis
    by simp
qed

theorem markOpenQuestion_idempotent_witness:
  "snd (markOpenQuestion ex_submitted ''t1'' ''Bob Smith'' ''Why?'' (JBool True)) =
     Inr \<lparr>updatedScore = 2, previousGrade = JUndefined, newGrade = JBool True, scoreChange = 1\<rparr> \<and>
   (\<exists>r2. markOpenQuestion
            (fst (markOpenQuestion ex_submitted ''t1'' ''Bob Smith'' ''Why?'' (JBool True)))
            ''t1'' ''Bob Smith'' ''Why?'' (JBool True) =
          (fst (markOpenQuestion ex_submitted ''t1'' ''Bob Smith'' ''Why?'' (JBool True)), Inr r2) \<and>
          scoreChange r2 = 0 \<and> updatedScore r2 = 2)"
proof -
  define r1 where "r1 = \<lparr>updatedScore = 2, previousGrade = JUndefined, newGrade = JBool True,
    scoreChange = 1\<rparr>"
  have res: "snd (markOpenQuestion ex_submitted ''t1'' ''Bob Smith'' ''Why?'' (JBool True)) = Inr r1"
    unfolding r1_def by code_simp
  then have first: "markOpenQuestion ex_submitted ''t1'' ''Bob Smith'' ''Why?'' (JBool True) =
      (fst (markOpenQuestion ex_submitted ''t1'' ''Bob Smith'' ''Why?'' (JBool True)), Inr r1)"
    by (simp add: prod_eq_iff)
  from markOpenQuestion_idempotent [OF first] res show ?thesis
    by (simp add: r1_def)
qed

section \<open>What a request can change\<close>

lemma gradeAll_score: "gradeAll lower a g qs = Inr g' \<Longrightarrow> g_score g \<le> g_score g'"
proof (induction qs arbitrary: g)
  case Nil
  then show ?case by simp
next
  case (Cons q qs)
  from Cons.prems obtain g1 where q: "gradeQuestion lower a g q = Inr g1"
    and rest: "gradeAll lower a g1 qs = Inr g'"
    by (auto split: sum.splits)
  from q have "g_score g \<le> g_score g1"
    by (auto simp: gradeQuestion_def Let_def split: if_splits jsval.splits option.splits)
  with Cons.IH [OF rest] show ?case by simp
qed

lemma gradeAllMCQ_score: "gradeAllMCQ lower a g qs = Inr g' \<Longrightarrow> g_score g \<le> g_score g'"
proof (induction qs arbitrary: g)
  case Nil
  then show ?case by simp
next
  case (Cons q qs)
  from Cons.prems obtain g1 where q: "gradeQuestionMCQ lower a g q = Inr g1"
    and rest: "gradeAllMCQ lower a g1 qs = Inr g'"
    by (auto split: sum.splits)
  from q have "g_score g \<le> g_score g1"
    by (auto simp: gradeQuestionMCQ_def Let_def split: if_splits jsval.splits option.splits)
  with Cons.IH [OF rest] show ?case by simp
qed

lemma submit_effect:
  "fst (submit lower st tok ans now) = st \<or>
   (\<exists>s. fst (submit lower st tok ans now) = st\<lparr>submissions := submissions st @ [s]\<rparr> \<and>
        appended st tok s)"
proof (cases "snd (submit lower st tok ans now)")
  case (Inl e)
  then have "fst (submit lower st tok ans now) = st"
    by (auto simp: submit_def split: if_splits option.splits sum.splits)
  then show ?thesis ..
next
  case (Inr res)
  then obtain a u g where a: "ans = Some a" "tok \<noteq> []"
    and u: "find (is_student_token tok) (users st) = Some u"
    and fresh: "find (\<lambda>sub. token sub = tok) (submissions st) = None"
    and g: "gradeAll lower a grading0 (questions st) = Inr g"
    by (auto simp: submit_def split: if_splits option.splits sum.splits)
  define s where "s = \<lparr>token = tok, studentName = firstName u @ '' '' @ lastName u,
        answers = a, openEndedAnswers = Some (json_props (g_openEndedAnswers g)),
        openAnswerGrades = Some Map.empty,
        score = g_score g, totalMCQs = g_totalMCQs g, submittedAt = now\<rparr>"
  from gradeAll_score [OF g] have "0 \<le> g_score g"
    by (simp add: grading0_def)
  with a u fresh have "appended st tok s"
    by (auto simp: appended_def s_def find_None_set dest: find_Some_set)
  moreover from a u fresh g
  have "fst (submit lower st tok ans now) = st\<lparr>submissions := submissions st @ [s]\<rparr>"
    by (simp add: submit_def s_def)
  ultimately show ?thesis by blast
qed

lemma submitMCQ_effect:
  "fst (submitMCQ lower st tok ans now) = st \<or>
   (\<exists>s. fst (submitMCQ lower st tok ans now) = st\<lparr>submissions := submissions st @ [s]\<rparr> \<and>
        appended st tok s)"
proof (cases "snd (submitMCQ lower st tok ans now)")
  case (Inl e)
  then have "fst (submitMCQ lower st tok ans now) = st"
    by (auto simp: submitMCQ_def split: if_splits option.splits sum.splits)
  then show ?thesis ..
next
  case (Inr res)
  then obtain a u g where a: "ans = Some a" "tok \<noteq> []"
    and u: "find (is_student_token tok) (users st) = Some u"
    and fresh: "find (\<lambda>sub. token sub = tok) (submissions st) = None"
    and g: "gradeAllMCQ lower a grading0 (questions st) = Inr g"
    by (auto simp: submitMCQ_def split: if_splits option.splits sum.splits)
  define s where "s = \<lparr>token = tok, studentName = firstName u @ '' '' @ lastName u,
        answers = a, openEndedAnswers = None, openAnswerGrades = None,
        score = g_score g, totalMCQs = g_totalMCQs g, submittedAt = now\<rparr>"
  from gradeAllMCQ_score [OF g] have "0 \<le> g_score g"
    by (simp add: grading0_def)
  with a u fresh have "appended st tok s"
    by (auto simp: appended_def s_def find_None_set dest: find_Some_set)
  moreover from a u fresh g
  have "fst (submitMCQ lower st tok ans now) = st\<lparr>submissions := submissions st @ [s]\<rparr>"
    by (simp add: submitMCQ_def s_def)
  ultimately show ?thesis by blast
qed

lemma signin_effect:
  "fst (signin lower st fn ln newId) = st \<or>
   (\<exists>u. fst (signin lower st fn ln newId) = st\<lparr>users := users st @ [u]\<rparr>)"
  by (auto simp: signin_def Let_def split: option.splits)

lemma sessionStart_effect:
  "fst (sessionStart st tok e now) = st \<or>
   (\<exists>s. fst (sessionStart st tok e now) = st\<lparr>sessions := sessions st @ [s]\<rparr>)"
  by (auto simp: sessionStart_def Let_def split: option.splits)

lemma sessionStartHour_effect:
  "fst (sessionStartHour st tok now) = st \<or>
   (\<exists>s. fst (sessionStartHour st tok now) = st\<lparr>sessions := sessions st @ [s]\<rparr>)"
  by (auto simp: sessionStartHour_def Let_def split: option.splits)

lemma markOpenQuestion_effect:
  "fst (markOpenQuestion st tok name qt v) = st \<or>
   (\<exists>i. findIndex (\<lambda>sub. studentName sub = name) (submissions st) = Some i \<and>
        fst (markOpenQuestion st tok name qt v) =
          st\<lparr>submissions := (submissions st)[i := fst (markSubmission (submissions st ! i) qt v)]\<rparr>)"
proof (cases "snd (markOpenQuestion st tok name qt v)")
  case (Inl e)
  then have "markOpenQuestion st tok name qt v = (fst (markOpenQuestion st tok name qt v), Inl e)"
    by (metis prod.collapse)
  from markOpenQuestion_Inl [OF this] show ?thesis by simp
next
  case (Inr r)
  then have "markOpenQuestion st tok name qt v = (fst (markOpenQuestion st tok name qt v), Inr r)"
    by (metis prod.collapse)
  from markOpenQuestion_Inr [OF this] show ?thesis
    by (auto simp: mark_ok_def)
qed

text \<open>
  What one request can do to the users and the submissions: nothing to the submissions and at
  most a new user; or a new submission at the end; or a marked submission in its place.
\<close>

lemma step_effect:
  "(submissions (step lower st req) = submissions st \<and>
      (users (step lower st req) = users st \<or> (\<exists>u. users (step lower st req) = users st @ [u]))) \<or>
   (users (step lower st req) = users st \<and>
      (\<exists>s tok. submissions (step lower st req) = submissions st @ [s] \<and> appended st tok s)) \<or>
   (users (step lower st req) = users st \<and>
      (\<exists>i name qt v. findIndex (\<lambda>sub. studentName sub = name) (submissions st) = Some i \<and>
         submissions (step lower st req) =
           (submissions st)[i := fst (markSubmission (submissions st ! i) qt v)]))"
proof (cases req)
  case (SignIn fn ln newId)
  from signin_effect [of lower st fn ln newId]
  have "submissions (step lower st req) = submissions st \<and>
      (users (step lower st req) = users st \<or> (\<exists>u. users (step lower st req) = users st @ [u]))"
    unfolding SignIn by (elim disjE exE) simp_all
  then show ?thesis ..
next
  case (SessionStart tok e now)
  from sessionStart_effect [of st tok e now]
  have "submissions (step lower st req) = submissions st \<and>
      (users (step lower st req) = users st \<or> (\<exists>u. users (step lower st req) = users st @ [u]))"
    unfolding SessionStart by (elim disjE exE) simp_all
  then show ?thesis ..
next
  case (SessionStartHour tok now)
  from sessionStartHour_effect [of st tok now]
  have "submissions (step lower st req) = submissions st \<and>
      (users (step lower st req) = users st \<or> (\<exists>u. users (step lower st req) = users st @ [u]))"
    unfolding SessionStartHour by (elim disjE exE) simp_all
  then show ?thesis ..
next
  case (Submit tok ans now)
  from submit_effect [of lower st tok ans now] show ?thesis
  proof (elim disjE exE conjE)
    assume "fst (submit lower st tok ans now) = st"
    then show ?thesis by (simp add: Submit)
  next
    fix s
    assume "fst (submit lower st tok ans now) = st\<lparr>submissions := submissions st @ [s]\<rparr>"
      and "appended st tok s"
    then have "users (step lower st req) = users st \<and>
      (\<exists>s tok. submissions (step lower st req) = submissions st @ [s] \<and> appended st tok s)"
      by (auto simp: Submit)
    then show ?thesis by blast
  qed
next
  case (SubmitMCQ tok ans now)
  from submitMCQ_effect [of lower st tok ans now] show ?thesis
  proof (elim disjE exE conjE)
    assume "fst (submitMCQ lower st tok ans now) = st"
    then show ?thesis by (simp add: SubmitMCQ)
  next
    fix s
    assume "fst (submitMCQ lower st tok ans now) = st\<lparr>submissions := submissions st @ [s]\<rparr>"
      and "appended st tok s"
    then have "users (step lower st req) = users st \<and>
      (\<exists>s tok. submissions (step lower st req) = submissions st @ [s] \<and> appended st tok s)"
      by (auto simp: SubmitMCQ)
    then show ?thesis by blast
  qed
next
  case (MarkOpenQuestion tok name qt v)
  from markOpenQuestion_effect [of st tok name qt v] show ?thesis
  proof (elim disjE exE conjE)
    assume "fst (markOpenQuestion st tok name qt v) = st"
    then show ?thesis by (simp add: MarkOpenQuestion)
  next
    fix i
    assume "findIndex (\<lambda>sub. studentName sub = name) (submissions st) = Some i"
      and "fst (markOpenQuestion st tok name qt v) =
        st\<lparr>submissions := (submissions st)[i := fst (markSubmission (submissions st ! i) qt v)]\<rparr>"
    then have "users (step lower st req) = users st \<and>
      (\<exists>i name qt v. findIndex (\<lambda>sub. studentName sub = name) (submissions st) = Some i \<and>
         submissions (step lower st req) =
           (submissions st)[i := fst (markSubmission (submissions st ! i) qt v)])"
      by (auto simp: MarkOpenQuestion)
    then show ?thesis by blast
  qed
qed

lemma run_Cons: "run lower st (req # reqs) = run lower (step lower st req) reqs"
  by (simp add: run_def)

lemma run_Nil: "run lower st [] = st"
  by (simp add: run_def)

lemma step_score_floor:
  assumes "\<forall>s \<in> set (submissions st). 0 \<le> score s"
  shows "\<forall>s \<in> set (submissions (step lower st req)). 0 \<le> score s"
proof -
  have marked: "0 \<le> score (fst (markSubmission sub qt v))" for sub qt v
    by (simp add: markSubmission_eq)
  from step_effect [of lower st req] show ?thesis
  proof (elim disjE conjE exE)
    fix i name qt v
    assume "submissions (step lower st req) =
      (submissions st)[i := fst (markSubmission (submissions st ! i) qt v)]"
    then show ?thesis
      using assms marked [of "submissions st ! i" qt v]
      by (auto dest!: set_update_subset_insert [THEN subsetD])
  next
    fix s tok
    assume "submissions (step lower st req) = submissions st @ [s]" "appended st tok s"
    with assms show ?thesis by (auto simp: appended_def)
  qed (use assms in simp_all)
qed

section \<open>The score floor\<close>

lemma run_score_floor:
  "\<forall>s \<in> set (submissions st). 0 \<le> score s \<Longrightarrow>
   \<forall>s \<in> set (submissions (run lower st reqs)). 0 \<le> score s"
proof (induction reqs arbitrary: st)
  case Nil
  then show ?case by (simp add: run_Nil)
next
  case (Cons req reqs)
  from step_score_floor [OF Cons.prems] have "\<forall>s \<in> set (submissions (step lower st req)). 0 \<le> score s" .
  from Cons.IH [OF this] show ?case
    by (simp add: run_Cons)
qed

text \<open>
  C6. If no stored submission has a negative score, then none has one after any sequence of
  requests, marking requests or others. And whatever the scores were, a marking request that
  succeeds has found the first submission with the given student name; the score change it
  reports is the one computed from the grade it read and the verdict; the updated score it
  reports is that submission's old score plus the score change, but 0 where the sum is
  negative; that updated score, which is not negative, is the score the submission has in
  the new store; and every submission of the new store is either one of the old store or has
  that updated score.
\<close>

theorem score_floor:
  "((\<forall>s \<in> set (submissions st). 0 \<le> score s) \<longrightarrow>
      (\<forall>s \<in> set (submissions (run lower st reqs)). 0 \<le> score s)) \<and>
   (\<forall>st' r. markOpenQuestion st tok name qt v = (st', Inr r) \<longrightarrow>
      0 \<le> updatedScore r \<and>
      (\<forall>s \<in> set (submissions st'). s \<in> set (submissions st) \<or> score s = updatedScore r) \<and>
      (\<exists>i. findIndex (\<lambda>sub. studentName sub = name) (submissions st) = Some i \<and>
           i < length (submissions st') \<and>
           scoreChange r = computeScoreChange (js_get (grades_of (submissions st ! i)) qt) v \<and>
           updatedScore r =
             (if score (submissions st ! i) + scoreChange r < 0 then 0
              else score (submissions st ! i) + scoreChange r) \<and>
           updatedScore r = max 0 (score (submissions st ! i) + scoreChange r) \<and>
           score (submissions st' ! i) = updatedScore r))"
proof (intro conjI impI allI)
  assume "\<forall>s \<in> set (submissions st). 0 \<le> score s"
  then show "\<forall>s \<in> set (submissions (run lower st reqs)). 0 \<le> score s"
    by (rule run_score_floor)
next
  fix st' r
  assume "markOpenQuestion st tok name qt v = (st', Inr r)"
  from markOpenQuestion_Inr [OF this] obtain i where
    ok: "mark_ok st tok name qt v i" and
    st': "st' = st\<lparr>submissions := (submissions st)[i := fst (markSubmission (submissions st ! i) qt v)]\<rparr>"
    and r: "r = snd (markSubmission (submissions st ! i) qt v)"
    by blast
  from ok have found: "findIndex (\<lambda>sub. studentName sub = name) (submissions st) = Some i"
    by (simp add: mark_ok_def)
  from findIndex_Some [OF found] have len: "i < length (submissions st)"
    by simp
  from r show "0 \<le> updatedScore r"
    by (simp add: markSubmission_eq)
  have marked: "score (fst (markSubmission (submissions st ! i) qt v)) = updatedScore r"
    by (simp add: r markSubmission_eq)
  then show "\<forall>s \<in> set (submissions st'). s \<in> set (submissions st) \<or> score s = updatedScore r"
    unfolding st' by (auto dest!: set_update_subset_insert [THEN subsetD])
  have "scoreChange r = computeScoreChange (js_get (grades_of (submissions st ! i)) qt) v"
    and "updatedScore r = max 0 (score (submissions st ! i) + scoreChange r)"
    by (simp_all add: r markSubmission_eq)
  moreover from this(2)
  have "updatedScore r =
      (if score (submissions st ! i) + scoreChange r < 0 then 0
       else score (submissions st ! i) + scoreChange r)"
    by (simp add: max_def)
  moreover from len marked have "i < length (submissions st')"
    and "score (submissions st' ! i) = updatedScore r"
    by (simp_all add: st')
  ultimately show "\<exists>i. findIndex (\<lambda>sub. studentName sub = name) (submissions st) = Some i \<and>
           i < length (submissions st') \<and>
           scoreChange r = computeScoreChange (js_get (grades_of (submissions st ! i)) qt) v \<and>
           updatedScore r =
             (if score (submissions st ! i) + scoreChange r < 0 then 0
              else score (submissions st ! i) + scoreChange r) \<and>
           updatedScore r = max 0 (score (submissions st ! i) + scoreChange r) \<and>
           score (submissions st' ! i) = updatedScore r"
    using found by (intro exI [of _ i]) simp
qed

theorem score_floor_witness:
  "list_all (\<lambda>s. 0 \<le> score s) (submissions ex_regraded) \<and>
   map score (submissions ex_regraded) = [0] \<and>
   list_all (\<lambda>s. 0 \<le> score s)
     (submissions (run ascii_lower ex_regraded
        [MarkOpenQuestion ''t1'' ''Bob Smith'' ''Why?'' (JBool False)])) \<and>
   snd (markOpenQuestion ex_regraded ''t1'' ''Bob Smith'' ''Why?'' (JBool False)) =
     Inr \<lparr>updatedScore = 0, previousGrade = JBool True, newGrade = JBool False,
          scoreChange = - 1\<rparr> \<and>
   score (submissions
       (fst (markOpenQuestion ex_regraded ''t1'' ''Bob Smith'' ''Why?'' (JBool False))) ! 0) =
     max 0 (score (submissions ex_regraded ! 0) + - 1) \<and>
   map score (submissions ex_submitted) = [1] \<and>
   snd (markOpenQuestion ex_submitted ''t1'' ''Bob Smith'' ''Why?'' (JBool True)) =
     Inr \<lparr>updatedScore = 2, previousGrade = JUndefined, newGrade = JBool True, scoreChange = 1\<rparr> \<and>
   score (submissions
       (fst (markOpenQuestion ex_submitted ''t1'' ''Bob Smith'' ''Why?'' (JBool True))) ! 0) =
     max 0 (score (submissions ex_submitted ! 0) + 1)"
proof -
  define r1 where "r1 = \<lparr>updatedScore = 0, previousGrade = JBool True, newGrade = JBool False,
    scoreChange = - 1\<rparr>"
  define r2 where "r2 = \<lparr>updatedScore = 2, previousGrade = JUndefined, newGrade = JBool True,
    scoreChange = 1\<rparr>"
  have before: "list_all (\<lambda>s. 0 \<le> score s) (submissions ex_regraded)"
    by code_simp
  then have "\<forall>s \<in> set (submissions ex_regraded). 0 \<le> score s"
    by (simp add: list_all_iff)
  with score_floor [of ex_regraded ascii_lower
      "[MarkOpenQuestion ''t1'' ''Bob Smith'' ''Why?'' (JBool False)]"]
  have "\<forall>s \<in> set (submissions (run ascii_lower ex_regraded
        [MarkOpenQuestion ''t1'' ''Bob Smith'' ''Why?'' (JBool False)])). 0 \<le> score s"
    by blast
  then have after: "list_all (\<lambda>s. 0 \<le> score s)
     (submissions (run ascii_lower ex_regraded
        [MarkOpenQuestion ''t1'' ''Bob Smith'' ''Why?'' (JBool False)]))"
    by (simp add: list_all_iff)
  have scores1: "map score (submissions ex_regraded) = [0]"
    by code_simp
  have scores2: "map score (submissions ex_submitted) = [1]"
    by code_simp
  have res1: "snd (markOpenQuestion ex_regraded ''t1'' ''Bob Smith'' ''Why?'' (JBool False)) = Inr r1"
    unfolding r1_def by code_simp
  then have run1: "markOpenQuestion ex_regraded ''t1'' ''Bob Smith'' ''Why?'' (JBool False) =
      (fst (markOpenQuestion ex_regraded ''t1'' ''Bob Smith'' ''Why?'' (JBool False)), Inr r1)"
    by (simp add: prod_eq_iff)
  have res2: "snd (markOpenQuestion ex_submitted ''t1'' ''Bob Smith'' ''Why?'' (JBool True)) = Inr r2"
    unfolding r2_def by code_simp
  then have run2: "markOpenQuestion ex_submitted ''t1'' ''Bob Smith'' ''Why?'' (JBool True) =
      (fst (markOpenQuestion ex_submitted ''t1'' ''Bob Smith'' ''Why?'' (JBool True)), Inr r2)"
    by (simp add: prod_eq_iff)
  have at1: "findIndex (\<lambda>sub. studentName sub = ''Bob Smith'') (submissions ex_regraded) = Some 0"
    by code_simp
  have at2: "findIndex (\<lambda>sub. studentName sub = ''Bob Smith'') (submissions ex_submitted) = Some 0"
    by code_simp
  from score_floor [of ex_regraded ascii_lower "[]" "''t1''" "''Bob Smith''" "''Why?''" "JBool False"]
    run1 at1
  have floor1: "score (submissions
       (fst (markOpenQuestion ex_regraded ''t1'' ''Bob Smith'' ''Why?'' (JBool False))) ! 0) =
     max 0 (score (submissions ex_regraded ! 0) + scoreChange r1)"
    by fastforce
  from score_floor [of ex_submitted ascii_lower "[]" "''t1''" "''Bob Smith''" "''Why?''" "JBool True"]
    run2 at2
  have floor2: "score (submissions
       (fst (markOpenQuestion ex_submitted ''t1'' ''Bob Smith'' ''Why?'' (JBool True))) ! 0) =
     max 0 (score (submissions ex_submitted ! 0) + scoreChange r2)"
    by fastforce
  from floor1 floor2 have "score (submissions
       (fst (markOpenQuestion ex_regraded ''t1'' ''Bob Smith'' ''Why?'' (JBool False))) ! 0) =
     max 0 (score (submissions ex_regraded ! 0) + - 1)"
    and "score (submissions
       (fst (markOpenQuestion ex_submitted ''t1'' ''Bob Smith'' ''Why?'' (JBool True))) ! 0) =
     max 0 (score (submissions ex_submitted ! 0) + 1)"
    by (simp_all add: r1_def r2_def)
  with before after scores1 scores2 res1 res2 show ?thesis
    unfolding r1_def r2_def by blast
qed

section \<open>One submission per token\<close>

lemma markSubmission_same:
  "token (fst (markSubmission sub qt v)) = token sub"
  "studentName (fst (markSubmission sub qt v)) = studentName sub"
  by (simp_all add: markSubmission_eq)

lemma step_wf:
  assumes "submissions_wf st"
  shows "submissions_wf (step lower st req)"
proof -
  from step_effect [of lower st req] show ?thesis
  proof (elim disjE conjE exE)
    assume "submissions (step lower st req) = submissions st" "users (step lower st req) = users st"
    with assms show ?thesis by (simp add: submissions_wf_def)
  next
    fix u
    assume "submissions (step lower st req) = submissions st"
      "users (step lower st req) = users st @ [u]"
    with assms show ?thesis by (auto simp: submissions_wf_def)
  next
    fix s tok
    assume "users (step lower st req) = users st"
      "submissions (step lower st req) = submissions st @ [s]" "appended st tok s"
    with assms show ?thesis by (auto simp: submissions_wf_def appended_def)
  next
    fix i name qt v
    assume u: "users (step lower st req) = users st"
      and i: "findIndex (\<lambda>sub. studentName sub = name) (submissions st) = Some i"
      and subs: "submissions (step lower st req) =
        (submissions st)[i := fst (markSubmission (submissions st ! i) qt v)]"
    from findIndex_Some [OF i] have len: "i < length (submissions st)" by simp
    have "(map token (submissions st))[i := token (submissions st ! i)] = map token (submissions st)"
      using len by (intro nth_equalityI) (simp_all add: nth_list_update)
    then have toks: "map token (submissions (step lower st req)) = map token (submissions st)"
      by (simp add: subs map_update markSubmission_same)
    have "token s \<noteq> [] \<and> (\<exists>u \<in> set (users st). is_student_token (token s) u)"
      if "s \<in> set (submissions (step lower st req))" for s
    proof -
      from that have "token s \<in> set (map token (submissions (step lower st req)))"
        by simp
      then obtain s0 where s0: "s0 \<in> set (submissions st)" and eq: "token s = token s0"
        unfolding toks by auto
      from assms s0 have "token s0 \<noteq> [] \<and> (\<exists>u \<in> set (users st). is_student_token (token s0) u)"
        by (simp add: submissions_wf_def)
      then show ?thesis by (simp add: eq)
    qed
    with assms toks u show ?thesis by (simp add: submissions_wf_def)
  qed
qed

lemma run_wf: "submissions_wf st \<Longrightarrow> submissions_wf (run lower st reqs)"
proof (induction reqs arbitrary: st)
  case Nil
  then show ?case by (simp add: run_Nil)
next
  case (Cons req reqs)
  from Cons.IH [OF step_wf [OF Cons.prems]] show ?case
    by (simp add: run_Cons)
qed

text \<open>
  C3. In every store that a sequence of requests reaches from a store without submissions, a
  submit request with a token that already has a submission fails with DuplicateSubmission,
  status 400, whatever answers object it carries and in both variants of the handler, and
  leaves the store as it is (without an answers object it fails with status 400 as well, at
  the check of the fields); and no two submissions of such a store share a token.
\<close>

theorem submit_duplicate:
  assumes "submissions st0 = []"
    and "tok \<in> token ` set (submissions (run lower st0 reqs))"
  shows "submit lower (run lower st0 reqs) tok (Some a) now =
           (run lower st0 reqs, Inl DuplicateSubmission) \<and>
         submitMCQ lower (run lower st0 reqs) tok (Some a) now =
           (run lower st0 reqs, Inl DuplicateSubmission) \<and>
         http_status DuplicateSubmission = 400 \<and>
         submit lower (run lower st0 reqs) tok None now = (run lower st0 reqs, Inl BadRequest) \<and>
         http_status BadRequest = 400 \<and>
         distinct (map token (submissions (run lower st0 reqs)))"
proof -
  define st where "st = run lower st0 reqs"
  from assms(1) have "submissions_wf st0"
    by (simp add: submissions_wf_def)
  then have wf: "submissions_wf st"
    unfolding st_def by (rule run_wf)
  from assms(2) obtain s where s: "s \<in> set (submissions st)" "token s = tok"
    unfolding st_def by auto
  with wf have tok: "tok \<noteq> []" and "\<exists>u \<in> set (users st). is_student_token tok u"
    by (auto simp: submissions_wf_def)
  then obtain u where u: "find (is_student_token tok) (users st) = Some u"
    by (cases "find (is_student_token tok) (users st)") (auto simp: find_None_set)
  from s obtain d where d: "find (\<lambda>sub. token sub = tok) (submissions st) = Some d"
    by (cases "find (\<lambda>sub. token sub = tok) (submissions st)") (auto simp: find_None_set)
  from tok u d have "submit lower st tok (Some a) now = (st, Inl DuplicateSubmission)"
    and "submitMCQ lower st tok (Some a) now = (st, Inl DuplicateSubmission)"
    and "submit lower st tok None now = (st, Inl BadRequest)"
    by (simp_all add: submit_def submitMCQ_def)
  with wf show ?thesis
    by (simp add: st_def [symmetric] submissions_wf_def)
qed

theorem submit_duplicate_witness:
  "submissions ex_store = [] \<and>
   map token (submissions ex_submitted) = [''s1''] \<and>
   submit ascii_lower ex_submitted ''s1'' (Some Map.empty) 9 =
     (ex_submitted, Inl DuplicateSubmission)"
proof -
  have empty: "submissions ex_store = []"
    by (simp add: ex_store_def)
  have toks: "map token (submissions ex_submitted) = [''s1'']"
    by code_simp
  have "set (map token (submissions ex_submitted)) = {''s1''}"
    by (simp only: toks) simp
  then have "''s1'' \<in> token ` set (submissions (run ascii_lower ex_store ex_requests))"
    by (simp add: ex_submitted_def)
  from submit_duplicate [OF empty this, of Map.empty 9] empty toks show ?thesis
    by (simp add: ex_submitted_def)
qed

section \<open>Which submission a marking request reaches\<close>






section \<open>A score above the number of multiple-choice questions\<close>

text \<open>
  C9. Marking leaves \<^verbatim>\<open>totalMCQs\<close> as it is. In the scenario, Bob's submission has score 1
  of 1 multiple-choice question; after the teacher marks his open-ended answer as correct it
  has score 2 with \<^verbatim>\<open>totalMCQs\<close> still 1, and GET /teacher/results reports
  \<^verbatim>\<open>correctCount\<close> 2 and \<^verbatim>\<open>totalQuestions\<close> 1 for him.
\<close>

theorem score_exceeds_totalMCQs:
  "submissions ex_store = [] \<and>
   map (\<lambda>s. (score s, totalMCQs s)) (submissions ex_submitted) = [(1, 1)] \<and>
   map (\<lambda>s. (score s, totalMCQs s))
     (submissions (run ascii_lower ex_store
        (ex_requests @ [MarkOpenQuestion ''t1'' ''Bob Smith'' ''Why?'' (JBool True)]))) = [(2, 1)] \<and>
   teacherResults (run ascii_lower ex_store
        (ex_requests @ [MarkOpenQuestion ''t1'' ''Bob Smith'' ''Why?'' (JBool True)])) ''t1'' =
     Inr [\<lparr>row_studentName = ''Bob Smith'', correctCount = 2, totalQuestions = 1\<rparr>] \<and>
   totalMCQs (fst (markSubmission sub qt v)) = totalMCQs sub"
proof -
  have "totalMCQs (fst (markSubmission sub qt v)) = totalMCQs sub"
    by (simp add: markSubmission_eq)
  moreover have "submissions ex_store = [] \<and>
   map (\<lambda>s. (score s, totalMCQs s)) (submissions ex_submitted) = [(1, 1)] \<and>
   map (\<lambda>s. (score s, totalMCQs s))
     (submissions (run ascii_lower ex_store
        (ex_requests @ [MarkOpenQuestion ''t1'' ''Bob Smith'' ''Why?'' (JBool True)]))) = [(2, 1)] \<and>
   teacherResults (run ascii_lower ex_store
        (ex_requests @ [MarkOpenQuestion ''t1'' ''Bob Smith'' ''Why?'' (JBool True)])) ''t1'' =
     Inr [\<lparr>row_studentName = ''Bob Smith'', correctCount = 2, totalQuestions = 1\<rparr>]"
    by code_simp
  ultimately show ?thesis by blast
qed

section \<open>The grading loop\<close>

lemma gradeQuestion_Inr_iff: "(\<exists>g1. gradeQuestion lower ans g q = Inr g1) \<longleftrightarrow> gradable ans q"
  by (auto simp: gradeQuestion_def gradable_def Let_def split: jsval.splits option.splits)

lemma gradeQuestion_Inl: "gradeQuestion lower ans g q = Inl e \<Longrightarrow> e = TypeError"
  by (auto simp: gradeQuestion_def Let_def split: if_splits jsval.splits option.splits)

lemma gradeQuestion_Inr:
  assumes "gradeQuestion lower ans g q = Inr g1"
  shows "g_totalMCQs g1 = g_totalMCQs g + (if qtype q = ''multiple-choice'' then 1 else 0)"
    and "g_score g1 =
           g_score g + (if qtype q = ''multiple-choice'' \<and> answer_matches lower ans q then 1 else 0)"
    and "g_openEndedAnswers g1 =
           (if qtype q = ''open-ended''
            then js_set (g_openEndedAnswers g) (qid q) (openAnswerOf ans (qid q))
            else g_openEndedAnswers g)"
  using assms
  by (auto simp: gradeQuestion_def answer_matches_def openAnswerOf_def Let_def
      split: if_splits jsval.splits option.splits)

lemma gradeAll_Inr_iff: "(\<exists>g1. gradeAll lower ans g qs = Inr g1) \<longleftrightarrow> list_all (gradable ans) qs"
proof (induction qs arbitrary: g)
  case Nil
  show ?case by simp
next
  case (Cons q qs)
  show ?case
  proof (cases "gradeQuestion lower ans g q")
    case (Inl e)
    then have "\<not> gradable ans q"
      using gradeQuestion_Inr_iff [of lower ans g q] by simp
    with Inl show ?thesis by simp
  next
    case (Inr g1)
    then have "gradable ans q"
      using gradeQuestion_Inr_iff [of lower ans g q] by auto
    with Inr Cons.IH [of g1] show ?thesis by simp
  qed
qed

lemma gradeAll_Inl: "gradeAll lower ans g qs = Inl e \<Longrightarrow> e = TypeError"
proof (induction qs arbitrary: g)
  case Nil
  then show ?case by simp
next
  case (Cons q qs)
  then show ?case
    by (auto split: sum.splits dest: gradeQuestion_Inl)
qed

lemma gradeAll_acc:
  assumes "gradeAll lower ans g0 qs = Inr g"
  shows "g_totalMCQs g =
           g_totalMCQs g0 + int (length (filter (\<lambda>q. qtype q = ''multiple-choice'') qs))"
    and "g_score g =
           g_score g0 +
           int (length (filter (\<lambda>q. qtype q = ''multiple-choice'' \<and> answer_matches lower ans q) qs))"
    and "g_openEndedAnswers g k =
           (if (\<exists>q \<in> set qs. qtype q = ''open-ended'' \<and> qid q = k) \<and>
               (k \<noteq> ''__proto__'' \<or> g_openEndedAnswers g0 k \<noteq> None)
            then Some (openAnswerOf ans k)
            else g_openEndedAnswers g0 k)"
  using assms
proof (induction qs arbitrary: g0)
  case Nil
  {
    case 1 then show ?case by simp
  next
    case 2 then show ?case by simp
  next
    case 3 then show ?case by simp
  }
next
  case (Cons q qs)
  {
    case 1
    then obtain g1 where q: "gradeQuestion lower ans g0 q = Inr g1"
      and rest: "gradeAll lower ans g1 qs = Inr g"
      by (auto split: sum.splits)
    from Cons.IH(1) [OF rest] gradeQuestion_Inr(1) [OF q] show ?case by simp
  next
    case 2
    then obtain g1 where q: "gradeQuestion lower ans g0 q = Inr g1"
      and rest: "gradeAll lower ans g1 qs = Inr g"
      by (auto split: sum.splits)
    from Cons.IH(2) [OF rest] gradeQuestion_Inr(2) [OF q] show ?case by simp
  next
    case 3
    then obtain g1 where q: "gradeQuestion lower ans g0 q = Inr g1"
      and rest: "gradeAll lower ans g1 qs = Inr g"
      by (auto split: sum.splits)
    from Cons.IH(3) [OF rest] gradeQuestion_Inr(3) [OF q] show ?case
      by (auto simp: js_set_def)
  }
qed

lemma gradeQuestionMCQ_eq:
  "gradeQuestionMCQ lower ans (g\<lparr>g_openEndedAnswers := m\<rparr>) q =
     map_sum id (\<lambda>g'. g'\<lparr>g_openEndedAnswers := m\<rparr>) (gradeQuestion lower ans g q)"
  by (simp add: gradeQuestionMCQ_def gradeQuestion_def Let_def split: jsval.splits option.splits)

lemma gradeAllMCQ_eq:
  "gradeAllMCQ lower ans (g\<lparr>g_openEndedAnswers := m\<rparr>) qs =
     map_sum id (\<lambda>g'. g'\<lparr>g_openEndedAnswers := m\<rparr>) (gradeAll lower ans g qs)"
proof (induction qs arbitrary: g)
  case Nil
  show ?case by simp
next
  case (Cons q qs)
  show ?case
  proof (cases "gradeQuestion lower ans g q")
    case (Inl e)
    then show ?thesis by (simp add: gradeQuestionMCQ_eq)
  next
    case (Inr g1)
    with Cons.IH [of g1] show ?thesis by (simp add: gradeQuestionMCQ_eq)
  qed
qed

text \<open>
  C4, as the code has it. The loop returns exactly when it throws at no question (what it
  throws is a TypeError), and then:
  \<^verbatim>\<open>totalMCQs\<close> is the number of multiple-choice questions; \<^verbatim>\<open>score\<close> is the number of
  multiple-choice questions for which \<^verbatim>\<open>answers[q.id]\<close> is a non-empty string equal to
  \<^verbatim>\<open>correctAnswer\<close> after \<^verbatim>\<open>toLowerCase\<close>; \<^verbatim>\<open>openEndedAnswers\<close> has, for every id
  of an open-ended question other than \<^verbatim>\<open>__proto__\<close>, the value \<^verbatim>\<open>answers[q.id]\<close> when
  that is truthy and the string \<^verbatim>\<open>"No answer"\<close> when it is not, and no other key. The loop
  of \<^verbatim>\<open>server.js\<close> throws at the same questions and computes the same two counts.
\<close>

theorem gradeAll_spec:
  "((\<exists>g. gradeAll lower ans grading0 qs = Inr g) \<longleftrightarrow> list_all (gradable ans) qs) \<and>
   (\<forall>e. gradeAll lower ans grading0 qs = Inl e \<longrightarrow> e = TypeError) \<and>
   (\<forall>g. gradeAll lower ans grading0 qs = Inr g \<longrightarrow>
      g_totalMCQs g = int (length (filter (\<lambda>q. qtype q = ''multiple-choice'') qs)) \<and>
      g_score g =
        int (length (filter (\<lambda>q. qtype q = ''multiple-choice'' \<and> answer_matches lower ans q) qs)) \<and>
      (\<forall>k. g_openEndedAnswers g k =
         (if k \<noteq> ''__proto__'' \<and> (\<exists>q \<in> set qs. qtype q = ''open-ended'' \<and> qid q = k)
          then Some (openAnswerOf ans k)
          else None))) \<and>
   gradeAllMCQ lower ans grading0 qs =
     map_sum id (\<lambda>g. g\<lparr>g_openEndedAnswers := Map.empty\<rparr>) (gradeAll lower ans grading0 qs)"
proof (intro conjI allI impI)
  show "(\<exists>g. gradeAll lower ans grading0 qs = Inr g) \<longleftrightarrow> list_all (gradable ans) qs"
    by (rule gradeAll_Inr_iff)
next
  fix e
  assume "gradeAll lower ans grading0 qs = Inl e"
  then show "e = TypeError"
    by (rule gradeAll_Inl)
next
  fix g
  assume g: "gradeAll lower ans grading0 qs = Inr g"
  from gradeAll_acc(1) [OF g]
  show "g_totalMCQs g = int (length (filter (\<lambda>q. qtype q = ''multiple-choice'') qs))"
    by (simp add: grading0_def)
  from gradeAll_acc(2) [OF g]
  show "g_score g =
        int (length (filter (\<lambda>q. qtype q = ''multiple-choice'' \<and> answer_matches lower ans q) qs))"
    by (simp add: grading0_def)
  fix k
  from gradeAll_acc(3) [OF g, of k]
  show "g_openEndedAnswers g k =
         (if k \<noteq> ''__proto__'' \<and> (\<exists>q \<in> set qs. qtype q = ''open-ended'' \<and> qid q = k)
          then Some (openAnswerOf ans k)
          else None)"
    by (auto simp: grading0_def)
next
  have "grading0\<lparr>g_openEndedAnswers := Map.empty\<rparr> = grading0"
    by (simp add: grading0_def)
  with gradeAllMCQ_eq [where g = grading0 and m = Map.empty and lower = lower and ans = ans and qs = qs]
  show "gradeAllMCQ lower ans grading0 qs =
     map_sum id (\<lambda>g. g\<lparr>g_openEndedAnswers := Map.empty\<rparr>) (gradeAll lower ans grading0 qs)"
    by simp
qed

theorem gradeAll_spec_witness:
  "list_all (gradable ex_answers) [ex_mcq, ex_open] \<and>
   (\<exists>g. gradeAll ascii_lower ex_answers grading0 [ex_mcq, ex_open] = Inr g \<and>
        g_totalMCQs g = 1 \<and> g_score g = 1 \<and>
        g_openEndedAnswers g ''q2'' = Some (JStr ''because'') \<and>
        g_openEndedAnswers g ''q1'' = None)"
proof -
  note inst = gradeAll_spec [of ascii_lower ex_answers "[ex_mcq, ex_open]"]
  have ok: "list_all (gradable ex_answers) [ex_mcq, ex_open]"
    by code_simp
  with inst obtain g where g: "gradeAll ascii_lower ex_answers grading0 [ex_mcq, ex_open] = Inr g"
    by blast
  have n: "int (length (filter (\<lambda>q. qtype q = ''multiple-choice'') [ex_mcq, ex_open])) = 1"
    by code_simp
  have k: "int (length (filter (\<lambda>q. qtype q = ''multiple-choice'' \<and>
      answer_matches ascii_lower ex_answers q) [ex_mcq, ex_open])) = 1"
    by code_simp
  have o2: "(if ''q2'' \<noteq> ''__proto__'' \<and>
               list_ex (\<lambda>q. qtype q = ''open-ended'' \<and> qid q = ''q2'') [ex_mcq, ex_open]
            then Some (openAnswerOf ex_answers ''q2'') else None) = Some (JStr ''because'')"
    by code_simp
  have o1: "(if ''q1'' \<noteq> ''__proto__'' \<and>
               list_ex (\<lambda>q. qtype q = ''open-ended'' \<and> qid q = ''q1'') [ex_mcq, ex_open]
            then Some (openAnswerOf ex_answers ''q1'') else None) = None"
    by code_simp
  from inst g
  have "g_totalMCQs g = int (length (filter (\<lambda>q. qtype q = ''multiple-choice'') [ex_mcq, ex_open]))"
    and "g_score g = int (length (filter (\<lambda>q. qtype q = ''multiple-choice'' \<and>
      answer_matches ascii_lower ex_answers q) [ex_mcq, ex_open]))"
    and "\<forall>k. g_openEndedAnswers g k =
         (if k \<noteq> ''__proto__'' \<and>
             (\<exists>q \<in> set [ex_mcq, ex_open]. qtype q = ''open-ended'' \<and> qid q = k)
          then Some (openAnswerOf ex_answers k) else None)"
    by blast+
  with n k o1 o2 have "g_totalMCQs g = 1 \<and> g_score g = 1 \<and>
        g_openEndedAnswers g ''q2'' = Some (JStr ''because'') \<and>
        g_openEndedAnswers g ''q1'' = None"
    by (simp add: list_ex_iff)
  with ok g show ?thesis by blast
qed

text \<open>
  C4 as the spec states it fails for an answer that is present and empty: with the empty
  string submitted for the open-ended question, the loop stores \<^verbatim>\<open>"No answer"\<close>, not the
  submitted answer.
\<close>

theorem gradeAll_spec_counterexample:
  "ex_empty_answer ''q2'' = Some (JStr []) \<and>
   qtype ex_open = ''open-ended'' \<and> qid ex_open = ''q2'' \<and>
   map_sum id (\<lambda>g. (g_score g, g_totalMCQs g, g_openEndedAnswers g ''q2''))
     (gradeAll ascii_lower ex_empty_answer grading0 [ex_mcq, ex_open]) =
     Inr (0, 1, Some (JStr ''No answer'')) \<and>
   JStr ''No answer'' \<noteq> JStr []"
  by code_simp

end
